theory Spec2Isabelle
  imports Main "HOL-Library.Char_ord"
begin

section \<open>Dry-run drivers (generated bindings, package aws)\<close>

text \<open>
  A Go \<^verbatim>\<open>error\<close> value is \<^verbatim>\<open>nil\<close> (\<open>None\<close>), an \<^verbatim>\<open>awserr.Error\<close> with its
  code and message, or any other error. The type assertion
  \<^verbatim>\<open>err.(awserr.Error)\<close> succeeds on the second form only.
\<close>

datatype goerror = AwsErr string string | OtherErr string

datatype logline = Verbose string | Errorf string "goerror option"

definition dryRunOperation :: string where
  "dryRunOperation = ''DryRunOperation''"

definition notFound :: string where
  "notFound = ''NotFound''"

text \<open>\<^verbatim>\<open>strings.HasSuffix(s, suffix)\<close>: \<^verbatim>\<open>len(s) >= len(suffix) && s[len(s)-len(suffix):] == suffix\<close>.\<close>

definition HasSuffix :: "string \<Rightarrow> string \<Rightarrow> bool" where
  "HasSuffix s suf = (length suf \<le> length s \<and> drop (length s - length suf) s = suf)"

text \<open>
  \<^verbatim>\<open>Create_Vpc_DryRun\<close>. The collaborators that are not part of the function are
  parameters: \<open>fakeDryRunId\<close> (the identifier synthesizer), \<open>setFieldErr\<close> (what
  \<^verbatim>\<open>setFieldWithType(params["cidr"], ...)\<close> returns) and \<open>createVpcErr\<close> (the error of
  \<^verbatim>\<open>d.CreateVpc(input)\<close>, whose output is discarded). The result is the returned pair
  together with the lines written to the driver's logger.
\<close>

definition Create_Vpc_DryRun ::
  "(string \<Rightarrow> 'id) \<Rightarrow> goerror option \<Rightarrow> goerror option
     \<Rightarrow> ('id option \<times> goerror option) \<times> logline list" where
  "Create_Vpc_DryRun fakeDryRunId setFieldErr createVpcErr =
     (case setFieldErr of
        Some e \<Rightarrow> ((None, Some e), [])
      | None \<Rightarrow>
          (case createVpcErr of
             Some (AwsErr code msg) \<Rightarrow>
               if code = dryRunOperation \<or> HasSuffix code notFound
               then ((Some (fakeDryRunId ''vpc''), None),
                     [Verbose ''full dry run: create vpc ok''])
               else ((None, createVpcErr),
                     [Errorf ''dry run: create vpc error: %s'' createVpcErr])
           | _ \<Rightarrow> ((None, createVpcErr),
                     [Errorf ''dry run: create vpc error: %s'' createVpcErr])))"

text \<open>
  The generated functions whose name ends in \<^verbatim>\<open>_DryRun\<close> and that call the platform
  (the ones that log \<^verbatim>\<open>full dry run\<close>) are 25 copies of one template. Each sets the
  fields of the request from the parameters, calls one operation of the platform with
  \<^verbatim>\<open>DryRun\<close> set, and classifies the error of the call.

  A required parameter is set with
  \<^verbatim>\<open>err = setFieldWithType(params[key], input, field, type); if err != nil { return nil, err }\<close>;
  an extra parameter is set the same way inside \<^verbatim>\<open>if _, ok := params[key]; ok { ... }\<close>.
  \<open>Required key field type\<close> and \<open>Extra key field type\<close> are these two blocks.
  \<^verbatim>\<open>params\<close> is a map from keys to values; \<^verbatim>\<open>setFieldWithType\<close> is not part of the
  functions, so what it returns is a parameter. \<open>setFields\<close> runs the blocks in order and
  gives the error of the first call that fails, after which the function returns.
\<close>

datatype step = Required string string string | Extra string string string

fun setFields ::
  "(string \<rightharpoonup> 'v) \<Rightarrow> ('v option \<Rightarrow> string \<Rightarrow> string \<Rightarrow> goerror option) \<Rightarrow> step list
     \<Rightarrow> goerror option" where
  "setFields params setFieldWithType [] = None"
| "setFields params setFieldWithType (Required k field ty # rest) =
     (case setFieldWithType (params k) field ty of
        Some e \<Rightarrow> Some e
      | None \<Rightarrow> setFields params setFieldWithType rest)"
| "setFields params setFieldWithType (Extra k field ty # rest) =
     (case params k of
        None \<Rightarrow> setFields params setFieldWithType rest
      | Some v \<Rightarrow>
          (case setFieldWithType (Some v) field ty of
             Some e \<Rightarrow> Some e
           | None \<Rightarrow> setFields params setFieldWithType rest))"

text \<open>
  What differs between the copies: the two words of the log messages (the second one is
  also the argument of \<^verbatim>\<open>fakeDryRunId\<close>), the operation called, and the blocks that set
  the parameters.
\<close>

record driver =
  verb :: string
  entity :: string
  apiCall :: string
  steps :: "step list"

text \<open>
  The template, after \<^verbatim>\<open>Create_Vpc_DryRun\<close> and its 23 siblings below. \<open>api\<close> gives the
  error that the operation of the platform returns (its output is discarded).
\<close>

definition fullDryRun ::
  "driver \<Rightarrow> (string \<Rightarrow> 'id) \<Rightarrow> (string \<rightharpoonup> 'v)
     \<Rightarrow> ('v option \<Rightarrow> string \<Rightarrow> string \<Rightarrow> goerror option) \<Rightarrow> (string \<Rightarrow> goerror option)
     \<Rightarrow> ('id option \<times> goerror option) \<times> logline list" where
  "fullDryRun d fakeDryRunId params setFieldWithType api =
     (case setFields params setFieldWithType (steps d) of
        Some e \<Rightarrow> ((None, Some e), [])
      | None \<Rightarrow>
          (let err = api (apiCall d)
           in case err of
                Some (AwsErr code msg) \<Rightarrow>
                  if code = dryRunOperation \<or> HasSuffix code notFound
                  then ((Some (fakeDryRunId (entity d)), None),
                        [Verbose (''full dry run: '' @ verb d @ '' '' @ entity d @ '' ok'')])
                  else ((None, err),
                        [Errorf (''dry run: '' @ verb d @ '' '' @ entity d @ '' error: %s'') err])
              | _ \<Rightarrow> ((None, err),
                        [Errorf (''dry run: '' @ verb d @ '' '' @ entity d @ '' error: %s'') err])))"

text \<open>
  The 24 functions that are the template and nothing more, in the order of the file:
  \<^verbatim>\<open>Create_Vpc_DryRun\<close>, \<^verbatim>\<open>Delete_Vpc_DryRun\<close>, \<^verbatim>\<open>Create_Subnet_DryRun\<close>,
  \<^verbatim>\<open>Delete_Subnet_DryRun\<close>, \<^verbatim>\<open>Update_Instance_DryRun\<close>, \<^verbatim>\<open>Delete_Instance_DryRun\<close>,
  \<^verbatim>\<open>Start_Instance_DryRun\<close>, \<^verbatim>\<open>Stop_Instance_DryRun\<close>, \<^verbatim>\<open>Create_Securitygroup_DryRun\<close>,
  \<^verbatim>\<open>Delete_Securitygroup_DryRun\<close>, \<^verbatim>\<open>Create_Volume_DryRun\<close>, \<^verbatim>\<open>Delete_Volume_DryRun\<close>,
  \<^verbatim>\<open>Attach_Volume_DryRun\<close>, \<^verbatim>\<open>Create_Internetgateway_DryRun\<close>,
  \<^verbatim>\<open>Delete_Internetgateway_DryRun\<close>, \<^verbatim>\<open>Attach_Internetgateway_DryRun\<close>,
  \<^verbatim>\<open>Detach_Internetgateway_DryRun\<close>, \<^verbatim>\<open>Create_Routetable_DryRun\<close>,
  \<^verbatim>\<open>Delete_Routetable_DryRun\<close>, \<^verbatim>\<open>Attach_Routetable_DryRun\<close>,
  \<^verbatim>\<open>Detach_Routetable_DryRun\<close>, \<^verbatim>\<open>Create_Route_DryRun\<close>, \<^verbatim>\<open>Delete_Route_DryRun\<close> and
  \<^verbatim>\<open>Delete_Keypair_DryRun\<close>.
\<close>

definition fullDryRuns :: "driver list" where
  "fullDryRuns =
     [\<lparr>verb = ''create'', entity = ''vpc'', apiCall = ''CreateVpc'',
        steps = [Required ''cidr'' ''CidrBlock'' ''awsstr'']\<rparr>,
      \<lparr>verb = ''delete'', entity = ''vpc'', apiCall = ''DeleteVpc'',
        steps = [Required ''id'' ''VpcId'' ''awsstr'']\<rparr>,
      \<lparr>verb = ''create'', entity = ''subnet'', apiCall = ''CreateSubnet'',
        steps = [Required ''cidr'' ''CidrBlock'' ''awsstr'',
                 Required ''vpc'' ''VpcId'' ''awsstr'',
                 Extra ''zone'' ''AvailabilityZone'' ''awsstr'']\<rparr>,
      \<lparr>verb = ''delete'', entity = ''subnet'', apiCall = ''DeleteSubnet'',
        steps = [Required ''id'' ''SubnetId'' ''awsstr'']\<rparr>,
      \<lparr>verb = ''update'', entity = ''instance'', apiCall = ''ModifyInstanceAttribute'',
        steps = [Required ''id'' ''InstanceId'' ''awsstr'',
                 Extra ''type'' ''InstanceType'' ''awsstr'',
                 Extra ''group'' ''Groups'' ''awsstringslice'',
                 Extra ''lock'' ''DisableApiTermination'' ''awsboolattribute'']\<rparr>,
      \<lparr>verb = ''delete'', entity = ''instance'', apiCall = ''TerminateInstances'',
        steps = [Required ''id'' ''InstanceIds'' ''awsstringslice'']\<rparr>,
      \<lparr>verb = ''start'', entity = ''instance'', apiCall = ''StartInstances'',
        steps = [Required ''id'' ''InstanceIds'' ''awsstringslice'']\<rparr>,
      \<lparr>verb = ''stop'', entity = ''instance'', apiCall = ''StopInstances'',
        steps = [Required ''id'' ''InstanceIds'' ''awsstringslice'']\<rparr>,
      \<lparr>verb = ''create'', entity = ''securitygroup'', apiCall = ''CreateSecurityGroup'',
        steps = [Required ''name'' ''GroupName'' ''awsstr'',
                 Required ''vpc'' ''VpcId'' ''awsstr'',
                 Required ''description'' ''Description'' ''awsstr'']\<rparr>,
      \<lparr>verb = ''delete'', entity = ''securitygroup'', apiCall = ''DeleteSecurityGroup'',
        steps = [Required ''id'' ''GroupId'' ''awsstr'']\<rparr>,
      \<lparr>verb = ''create'', entity = ''volume'', apiCall = ''CreateVolume'',
        steps = [Required ''zone'' ''AvailabilityZone'' ''awsstr'',
                 Required ''size'' ''Size'' ''awsint64'']\<rparr>,
      \<lparr>verb = ''delete'', entity = ''volume'', apiCall = ''DeleteVolume'',
        steps = [Required ''id'' ''VolumeId'' ''awsstr'']\<rparr>,
      \<lparr>verb = ''attach'', entity = ''volume'', apiCall = ''AttachVolume'',
        steps = [Required ''device'' ''Device'' ''awsstr'',
                 Required ''id'' ''VolumeId'' ''awsstr'',
                 Required ''instance'' ''InstanceId'' ''awsstr'']\<rparr>,
      \<lparr>verb = ''create'', entity = ''internetgateway'', apiCall = ''CreateInternetGateway'',
        steps = []\<rparr>,
      \<lparr>verb = ''delete'', entity = ''internetgateway'', apiCall = ''DeleteInternetGateway'',
        steps = [Required ''id'' ''InternetGatewayId'' ''awsstr'']\<rparr>,
      \<lparr>verb = ''attach'', entity = ''internetgateway'', apiCall = ''AttachInternetGateway'',
        steps = [Required ''id'' ''InternetGatewayId'' ''awsstr'',
                 Required ''vpc'' ''VpcId'' ''awsstr'']\<rparr>,
      \<lparr>verb = ''detach'', entity = ''internetgateway'', apiCall = ''DetachInternetGateway'',
        steps = [Required ''id'' ''InternetGatewayId'' ''awsstr'',
                 Required ''vpc'' ''VpcId'' ''awsstr'']\<rparr>,
      \<lparr>verb = ''create'', entity = ''routetable'', apiCall = ''CreateRouteTable'',
        steps = [Required ''vpc'' ''VpcId'' ''awsstr'']\<rparr>,
      \<lparr>verb = ''delete'', entity = ''routetable'', apiCall = ''DeleteRouteTable'',
        steps = [Required ''id'' ''RouteTableId'' ''awsstr'']\<rparr>,
      \<lparr>verb = ''attach'', entity = ''routetable'', apiCall = ''AssociateRouteTable'',
        steps = [Required ''id'' ''RouteTableId'' ''awsstr'',
                 Required ''subnet'' ''SubnetId'' ''awsstr'']\<rparr>,
      \<lparr>verb = ''detach'', entity = ''routetable'', apiCall = ''DisassociateRouteTable'',
        steps = [Required ''association'' ''AssociationId'' ''awsstr'']\<rparr>,
      \<lparr>verb = ''create'', entity = ''route'', apiCall = ''CreateRoute'',
        steps = [Required ''table'' ''RouteTableId'' ''awsstr'',
                 Required ''cidr'' ''DestinationCidrBlock'' ''awsstr'',
                 Required ''gateway'' ''GatewayId'' ''awsstr'']\<rparr>,
      \<lparr>verb = ''delete'', entity = ''route'', apiCall = ''DeleteRoute'',
        steps = [Required ''table'' ''RouteTableId'' ''awsstr'',
                 Required ''cidr'' ''DestinationCidrBlock'' ''awsstr'']\<rparr>,
      \<lparr>verb = ''delete'', entity = ''keypair'', apiCall = ''DeleteKeyPair'',
        steps = [Required ''id'' ''KeyName'' ''awsstr'']\<rparr>]"

text \<open>
  \<^verbatim>\<open>Create_Instance_DryRun\<close>, the 25th copy, has a step of its own in the branch of the
  accepted codes: when the parameter \<^verbatim>\<open>name\<close> is present, \<^verbatim>\<open>tagsParams\<close> has two
  entries and \<^verbatim>\<open>Create_Tags_DryRun\<close> is called with them; its error, if any, is logged
  and returned in place of the identifier. \<^verbatim>\<open>Create_Tags_DryRun\<close> is not among the
  sources: what it returns for the identifier and the name is a parameter.
  \<open>instanceSteps\<close> are the blocks that set the parameters of the function.
\<close>

definition instanceSteps :: "step list" where
  "instanceSteps =
     [Required ''image'' ''ImageId'' ''awsstr'',
      Required ''count'' ''MaxCount'' ''awsint64'',
      Required ''count'' ''MinCount'' ''awsint64'',
      Required ''type'' ''InstanceType'' ''awsstr'',
      Required ''subnet'' ''SubnetId'' ''awsstr'',
      Extra ''key'' ''KeyName'' ''awsstr'',
      Extra ''ip'' ''PrivateIpAddress'' ''awsstr'',
      Extra ''userdata'' ''UserData'' ''awsstr'',
      Extra ''group'' ''SecurityGroupIds'' ''awsstringslice'',
      Extra ''lock'' ''DisableApiTermination'' ''awsboolattribute'']"

definition Create_Instance_DryRun ::
  "(string \<Rightarrow> 'id) \<Rightarrow> (string \<rightharpoonup> 'v)
     \<Rightarrow> ('v option \<Rightarrow> string \<Rightarrow> string \<Rightarrow> goerror option) \<Rightarrow> (string \<Rightarrow> goerror option)
     \<Rightarrow> ('id \<Rightarrow> 'v \<Rightarrow> goerror option)
     \<Rightarrow> ('id option \<times> goerror option) \<times> logline list" where
  "Create_Instance_DryRun fakeDryRunId params setFieldWithType api Create_Tags_DryRun =
     (case setFields params setFieldWithType instanceSteps of
        Some e \<Rightarrow> ((None, Some e), [])
      | None \<Rightarrow>
          (let err = api ''RunInstances''
           in case err of
                Some (AwsErr code msg) \<Rightarrow>
                  if code = dryRunOperation \<or> HasSuffix code notFound
                  then (let id = fakeDryRunId ''instance''
                        in case params ''name'' of
                             None \<Rightarrow> ((Some id, None),
                                       [Verbose ''full dry run: create instance ok''])
                           | Some v \<Rightarrow>
                               (case Create_Tags_DryRun id v of
                                  Some e \<Rightarrow>
                                    ((None, Some e),
                                     [Errorf ''create instance: adding tags: error: %s'' (Some e)])
                                | None \<Rightarrow> ((Some id, None),
                                            [Verbose ''full dry run: create instance ok''])))
                  else ((None, err), [Errorf ''dry run: create instance error: %s'' err])
              | _ \<Rightarrow> ((None, err), [Errorf ''dry run: create instance error: %s'' err])))"

section \<open>The revert command (commands/revert.go)\<close>

text \<open>
  \<^verbatim>\<open>revertCmd.RunE\<close> as a function from the arguments and the collaborators' answers
  to the trace of effects and the way the command ends. The collaborators
  (\<^verbatim>\<open>database.Current\<close>, \<^verbatim>\<open>GetTemplateExecution\<close>, \<^verbatim>\<open>Revert\<close>, \<^verbatim>\<open>runTemplate\<close>)
  are parameters.
\<close>

datatype ('x, 't) effect =
    DbCurrent
  | GetTemplateExecution string
  | DbClose
  | RevertCall 'x
  | Printf 't
  | RunTemplate 't

datatype ending = Returned "string option" | Exited string

record ('x, 't) collaborators =
  dbCurrent :: "string option"
  getTemplateExecution :: "string \<Rightarrow> string + 'x"
  revert :: "'x \<Rightarrow> string + 't"
  runTemplate :: "'t \<Rightarrow> string option"

text \<open>
  Modelled from the spec: \<^verbatim>\<open>exitOn\<close> is not among the sources. Section 6 of the
  specification: "non-zero process exit on any internal failure". On a non-nil error
  the process exits and nothing after the call runs; on nil the command goes on.
\<close>

definition exitOn ::
  "string option \<Rightarrow> ('x, 't) effect list \<Rightarrow> (('x, 't) effect list \<times> ending)
     \<Rightarrow> ('x, 't) effect list \<times> ending" where
  "exitOn err done rest = (case err of Some e \<Rightarrow> (done, Exited e) | None \<Rightarrow> rest)"

definition RunE :: "('x, 't) collaborators \<Rightarrow> string list \<Rightarrow> ('x, 't) effect list \<times> ending" where
  "RunE c args =
     (if length args < 1
      then ([], Returned (Some ''REVERTID required (see `awless log` to list revert ids)''))
      else
        let revertId = args ! 0;
            t1 = [DbCurrent]
        in exitOn (dbCurrent c) t1
             (let t2 = t1 @ [GetTemplateExecution revertId, DbClose]
              in case getTemplateExecution c revertId of
                   Inl e \<Rightarrow> (t2, Exited e)
                 | Inr tplExec \<Rightarrow>
                     (let t3 = t2 @ [RevertCall tplExec]
                      in case revert c tplExec of
                           Inl e \<Rightarrow> (t3, Exited e)
                         | Inr reverted \<Rightarrow>
                             (let t4 = t3 @ [Printf reverted, RunTemplate reverted]
                              in exitOn (runTemplate c reverted) t4 (t4, Returned None)))))"

section \<open>The revert generator\<close>

datatype action = none | create | delete | start | stop | update | attach | check | detach

record ('e, 'p, 'r) entry =
  entryAction :: action
  entryEntity :: 'e
  resolvedParams :: 'p
  result :: 'r
  succeeded :: bool

record ('e, 'q) statement =
  stmtAction :: action
  stmtEntity :: 'e
  stmtParams :: 'q

text \<open>
  Modelled from the spec: \<^verbatim>\<open>Revert\<close> of a template execution (package template) is
  not among the sources; \<^verbatim>\<open>commands/revert.go\<close> only calls it. Section 4.5: the fixed
  inverse table \<^verbatim>\<open>create/delete\<close>, \<^verbatim>\<open>start/stop\<close>, \<^verbatim>\<open>attach/detach\<close>, in the
  direction that undoes an executed statement; \<^verbatim>\<open>delete\<close>, \<^verbatim>\<open>update\<close>,
  \<^verbatim>\<open>check\<close> and \<^verbatim>\<open>none\<close> have no defined inverse.
\<close>

fun inverse_action :: "action \<Rightarrow> action option" where
  "inverse_action create = Some delete"
| "inverse_action start = Some stop"
| "inverse_action stop = Some start"
| "inverse_action attach = Some detach"
| "inverse_action detach = Some attach"
| "inverse_action delete = None"
| "inverse_action update = None"
| "inverse_action check = None"
| "inverse_action none = None"

text \<open>
  Modelled from the spec: step 4 of section 4.5 builds the parameters of the inverse
  statement from the captured resolved values and the result of the original execution.
  How is left to the parameter \<open>mk\<close>.
\<close>

definition inverse_statement ::
  "(('e, 'p, 'r) entry \<Rightarrow> 'q) \<Rightarrow> action \<Rightarrow> ('e, 'p, 'r) entry \<Rightarrow> ('e, 'q) statement" where
  "inverse_statement mk a e = \<lparr>stmtAction = a, stmtEntity = entryEntity e, stmtParams = mk e\<rparr>"

text \<open>
  Modelled from the spec: steps 3 to 5 of section 4.5, walking the entries in the order
  given: an entry with an inverse contributes its inverse statement, an entry without
  one is skipped and reported as a diagnostic.
\<close>

fun invert_entries ::
  "(('e, 'p, 'r) entry \<Rightarrow> 'q) \<Rightarrow> ('e, 'p, 'r) entry list
     \<Rightarrow> ('e, 'q) statement list \<times> ('e, 'p, 'r) entry list" where
  "invert_entries mk [] = ([], [])"
| "invert_entries mk (e # es) =
     (case inverse_action (entryAction e) of
        None \<Rightarrow> (fst (invert_entries mk es), e # snd (invert_entries mk es))
      | Some a \<Rightarrow> (inverse_statement mk a e # fst (invert_entries mk es),
                   snd (invert_entries mk es)))"

text \<open>
  Modelled from the spec: the algorithm of section 4.5. Step 1 keeps the successfully
  executed entries, step 2 reverses them, steps 3 to 5 invert them in that order. The
  result is the reverted template and the diagnostics.
\<close>

definition Revert ::
  "(('e, 'p, 'r) entry \<Rightarrow> 'q) \<Rightarrow> ('e, 'p, 'r) entry list
     \<Rightarrow> ('e, 'q) statement list \<times> ('e, 'p, 'r) entry list" where
  "Revert mk record = invert_entries mk (rev (filter succeeded record))"

text \<open>The entries the reverted template has a statement for.\<close>

definition invertible :: "('e, 'p, 'r) entry \<Rightarrow> bool" where
  "invertible e = (succeeded e \<and> inverse_action (entryAction e) \<noteq> None)"

section \<open>The template parser (generated PEG parser, package ast)\<close>

text \<open>
  The parser works on \<^verbatim>\<open>buffer\<close>, the runes of the text followed by the end symbol, and
  on three variables of \<^verbatim>\<open>Init\<close>: \<^verbatim>\<open>position\<close>, \<^verbatim>\<open>tokenIndex\<close> (with the token
  array \<^verbatim>\<open>tree\<close>) and \<^verbatim>\<open>max\<close>.

  \<^item> A rune is a \<^typ>\<open>char\<close> and the buffer a \<^typ>\<open>char list\<close> without the end symbol:
    reading at the length of the list reads the end symbol (\<open>None\<close>), which no
    comparison of the parser accepts. Every rune the parser compares with is ASCII.
  \<^item> A position is a \<^typ>\<open>nat\<close> (the source has \<^verbatim>\<open>uint32\<close>: texts shorter than
    \<open>2^32\<close> runes).
  \<^item> \<open>tree\<close> holds the first \<^verbatim>\<open>tokenIndex\<close> tokens of the array, in order, so
    restoring \<^verbatim>\<open>tokenIndex\<close> is restoring \<open>tree\<close>.
\<close>

datatype pegRule =
    ruleUnknown | ruleScript | ruleStatement | ruleAction | ruleEntity | ruleDeclaration
  | ruleExpr | ruleParams | ruleParam | ruleIdentifier | ruleValue | ruleStringValue
  | ruleCSVValue | ruleCidrValue | ruleIpValue | ruleIntValue | ruleIntRangeValue
  | ruleRefValue | ruleAliasValue | ruleHoleValue | ruleComment | ruleSpacing
  | ruleWhiteSpacing | ruleMustWhiteSpacing | ruleEqual | ruleSpace | ruleWhitespace
  | ruleEndOfLine | ruleEndOfFile | rulePegText
  | ruleAction0 | ruleAction1 | ruleAction2 | ruleAction3 | ruleAction4 | ruleAction5
  | ruleAction6 | ruleAction7 | ruleAction8 | ruleAction9 | ruleAction10 | ruleAction11
  | ruleAction12 | ruleAction13 | ruleAction14

record token32 =
  pegRule :: pegRule
  tbegin :: nat
  tend :: nat

record pstate =
  position :: nat
  tree :: "token32 list"
  maxTok :: token32

text \<open>
  A piece of the parser either matches and leaves a new state, or fails. On failure the
  source jumps to a label that restores \<^verbatim>\<open>position\<close> and \<^verbatim>\<open>tokenIndex\<close> from the copies
  saved there; \<^verbatim>\<open>max\<close> is never restored. So a failure hands back \<^verbatim>\<open>max\<close> only, and the
  piece of code at the label goes on from its saved state with that \<^verbatim>\<open>max\<close>.
\<close>

datatype outcome = Matched pstate | Failed token32

type_synonym rule = "pstate \<Rightarrow> outcome"

text \<open>\<^verbatim>\<open>buffer[position]\<close>.\<close>

definition runeAt :: "char list \<Rightarrow> nat \<Rightarrow> char option" where
  "runeAt buffer p = (if p < length buffer then Some (buffer ! p) else None)"

text \<open>
  \<^verbatim>\<open>add(rule, begin)\<close>: the token from \<^verbatim>\<open>begin\<close> to the cursor is stored at
  \<^verbatim>\<open>tokenIndex\<close>, and becomes \<^verbatim>\<open>max\<close> when it is not empty and ends after \<^verbatim>\<open>max\<close>.
\<close>

definition add :: "pegRule \<Rightarrow> nat \<Rightarrow> pstate \<Rightarrow> pstate" where
  "add r bgn st =
     st\<lparr>tree := tree st @ [\<lparr>pegRule = r, tbegin = bgn, tend = position st\<rparr>],
        maxTok := (if bgn \<noteq> position st \<and> tend (maxTok st) < position st
                   then \<lparr>pegRule = r, tbegin = bgn, tend = position st\<rparr>
                   else maxTok st)\<rparr>"

text \<open>
  One rune: \<^verbatim>\<open>if !P(buffer[position]) { goto fail }; position++\<close>. \<^verbatim>\<open>matchDot\<close> accepts
  every rune but the end symbol; a literal rune and a range \<^verbatim>\<open>[a-z]\<close> are the two
  other forms in the generated code.
\<close>

definition matchClass :: "(char \<Rightarrow> bool) \<Rightarrow> char list \<Rightarrow> rule" where
  "matchClass P buffer st =
     (case runeAt buffer (position st) of
        None \<Rightarrow> Failed (maxTok st)
      | Some c \<Rightarrow> if P c then Matched (st\<lparr>position := position st + 1\<rparr>)
                  else Failed (maxTok st))"

definition matchDot :: "char list \<Rightarrow> rule" where
  "matchDot buffer = matchClass (\<lambda>c. True) buffer"

definition matchRune :: "char \<Rightarrow> char list \<Rightarrow> rule" where
  "matchRune r buffer = matchClass (\<lambda>c. c = r) buffer"

text \<open>
  The control flow of the generated code:
  \<^item> \<open>andThen p q\<close>: \<open>p\<close>, then \<open>q\<close>; a failure of either is a failure.
  \<^item> \<open>orElse p q\<close>: \<^verbatim>\<open>if !p { goto l }; goto ok; l: position, tokenIndex = saved; q\<close>.
  \<^item> \<open>token r p\<close>: \<^verbatim>\<open>begin := position; p; add(r, begin)\<close>.
  \<^item> \<open>emit r\<close>: \<^verbatim>\<open>add(r, position)\<close>, the empty token of an action.
  \<^item> \<open>notAhead p\<close>: the predicate \<^verbatim>\<open>!p\<close>; it consumes nothing, and fails when \<open>p\<close>
    matches.
  \<^item> \<open>optional p\<close>: \<^verbatim>\<open>p?\<close>.
\<close>

definition andThen :: "rule \<Rightarrow> rule \<Rightarrow> rule" where
  "andThen p q st = (case p st of Matched s \<Rightarrow> q s | Failed m \<Rightarrow> Failed m)"

definition orElse :: "rule \<Rightarrow> rule \<Rightarrow> rule" where
  "orElse p q st = (case p st of Matched s \<Rightarrow> Matched s | Failed m \<Rightarrow> q (st\<lparr>maxTok := m\<rparr>))"

definition token :: "pegRule \<Rightarrow> rule \<Rightarrow> rule" where
  "token r p st = (case p st of Matched s \<Rightarrow> Matched (add r (position st) s)
                   | Failed m \<Rightarrow> Failed m)"

definition emit :: "pegRule \<Rightarrow> rule" where
  "emit r st = Matched (add r (position st) st)"

definition notAhead :: "rule \<Rightarrow> rule" where
  "notAhead p st = (case p st of Matched s \<Rightarrow> Failed (maxTok s)
                    | Failed m \<Rightarrow> Matched (st\<lparr>maxTok := m\<rparr>))"

definition optional :: "rule \<Rightarrow> rule" where
  "optional p st = (case p st of Matched s \<Rightarrow> Matched s
                    | Failed m \<Rightarrow> Matched (st\<lparr>maxTok := m\<rparr>))"

text \<open>A literal such as \<^verbatim>\<open>'create'\<close>: its runes one after the other.\<close>

fun matchString :: "string \<Rightarrow> char list \<Rightarrow> rule" where
  "matchString [] buffer st = Matched st"
| "matchString (c # cs) buffer st =
     (case matchRune c buffer st of
        Matched s \<Rightarrow> matchString cs buffer s
      | Failed m \<Rightarrow> Failed m)"

text \<open>
  A Go \<^verbatim>\<open>switch buffer[position]\<close>: the first case whose rune is the one under the
  cursor runs, the default otherwise.
\<close>

fun switchRune :: "(char \<times> rule) list \<Rightarrow> rule \<Rightarrow> char list \<Rightarrow> rule" where
  "switchRune [] dflt buffer st = dflt st"
| "switchRune ((c, p) # cases) dflt buffer st =
     (if runeAt buffer (position st) = Some c then p st else switchRune cases dflt buffer st)"

subsection \<open>How far a rule moves the cursor\<close>

named_theorems steady_intros

definition consuming :: "nat \<Rightarrow> rule \<Rightarrow> bool" where
  "consuming n p = (\<forall>st s. p st = Matched s \<longrightarrow> position st < position s \<and> position s \<le> n)"

definition steady :: "nat \<Rightarrow> rule \<Rightarrow> bool" where
  "steady n p = (\<forall>st s. p st = Matched s \<longrightarrow>
     position st \<le> position s \<and> (position s \<le> n \<or> position s = position st))"

lemma consumingD:
  "consuming n p \<Longrightarrow> p st = Matched s \<Longrightarrow> position st < position s \<and> position s \<le> n"
  by (simp add: consuming_def)

lemma loop_measure:
  "consuming n p \<Longrightarrow> p st = Matched s \<Longrightarrow> n - position s < n - position st"
  by (drule (1) consumingD) arith

lemma consuming_steady: "consuming n p \<Longrightarrow> steady n p"
  by (auto simp: consuming_def steady_def dest: less_imp_le)

lemma consuming_matchClass: "consuming (length buffer) (matchClass P buffer)"
  by (auto simp: consuming_def matchClass_def runeAt_def split: option.splits if_splits)

lemma consuming_matchDot: "consuming (length buffer) (matchDot buffer)"
  by (simp add: matchDot_def consuming_matchClass)

lemma consuming_matchRune: "consuming (length buffer) (matchRune r buffer)"
  by (simp add: matchRune_def consuming_matchClass)

lemma consuming_andThen1: "consuming n p \<Longrightarrow> steady n q \<Longrightarrow> consuming n (andThen p q)"
  unfolding consuming_def steady_def andThen_def
  by (fastforce split: outcome.splits)

lemma consuming_andThen2: "steady n p \<Longrightarrow> consuming n q \<Longrightarrow> consuming n (andThen p q)"
  unfolding consuming_def steady_def andThen_def
  by (fastforce split: outcome.splits)

lemma steady_andThen [steady_intros]: "steady n p \<Longrightarrow> steady n q \<Longrightarrow> steady n (andThen p q)"
  unfolding steady_def andThen_def
  by (fastforce split: outcome.splits)

lemma consuming_orElse: "consuming n p \<Longrightarrow> consuming n q \<Longrightarrow> consuming n (orElse p q)"
  unfolding consuming_def orElse_def
  by (fastforce split: outcome.splits)

lemma consuming_token: "consuming n p \<Longrightarrow> consuming n (token r p)"
  unfolding consuming_def token_def add_def
  by (fastforce split: outcome.splits)

lemma steady_token [steady_intros]: "steady n p \<Longrightarrow> steady n (token r p)"
  unfolding steady_def token_def add_def
  by (fastforce split: outcome.splits)

lemma steady_emit [steady_intros]: "steady n (emit r)"
  by (auto simp: steady_def emit_def add_def)

lemma steady_notAhead [steady_intros]: "steady n (notAhead p)"
  by (auto simp: steady_def notAhead_def split: outcome.splits)

lemma steady_optional [steady_intros]: "steady n p \<Longrightarrow> steady n (optional p)"
  unfolding steady_def optional_def
  by (fastforce split: outcome.splits)

lemma matchClass_Matched:
  "matchClass P buffer st = Matched s \<Longrightarrow>
     s = st\<lparr>position := Suc (position st)\<rparr> \<and> position st < length buffer
     \<and> P (buffer ! position st)"
  by (auto simp: matchClass_def runeAt_def split: option.splits if_splits)

lemma matchString_Matched:
  "matchString lit buffer st = Matched s \<Longrightarrow>
     s = st\<lparr>position := position st + length lit\<rparr>
     \<and> take (length lit) (drop (position st) buffer) = lit
     \<and> (lit \<noteq> [] \<longrightarrow> position st + length lit \<le> length buffer)"
proof (induction lit arbitrary: st)
  case Nil
  then show ?case by simp
next
  case (Cons c cs)
  from Cons.prems obtain s1 where 1: "matchClass (\<lambda>x. x = c) buffer st = Matched s1"
    and 2: "matchString cs buffer s1 = Matched s"
    by (auto simp: matchRune_def split: outcome.splits)
  note m = matchClass_Matched [OF 1]
  from m have p: "position s1 = Suc (position st)" by simp
  from m have d: "drop (position st) buffer = c # drop (position s1) buffer"
    using Cons_nth_drop_Suc [of "position st" buffer] by simp
  from Cons.IH [OF 2] m p d show ?case by (cases cs) simp_all
qed

lemma consuming_matchString: "lit \<noteq> [] \<Longrightarrow> consuming (length buffer) (matchString lit buffer)"
  unfolding consuming_def
proof (intro allI impI)
  fix st s
  assume "lit \<noteq> []" and "matchString lit buffer st = Matched s"
  from matchString_Matched [OF this(2)] \<open>lit \<noteq> []\<close>
  show "position st < position s \<and> position s \<le> length buffer"
    by (cases lit) auto
qed

lemma consuming_switchRune:
  "list_all (\<lambda>cp. consuming n (snd cp)) cases \<Longrightarrow> consuming n dflt
     \<Longrightarrow> consuming n (switchRune cases dflt buffer)"
proof (induction cases)
  case Nil
  then show ?case by (simp add: consuming_def)
next
  case (Cons cp cases)
  obtain c p where cp: "cp = (c, p)" by (cases cp)
  from Cons.prems have p: "consuming n p" and r: "consuming n (switchRune cases dflt buffer)"
    using Cons.IH by (simp_all add: cp)
  show ?case
    unfolding consuming_def cp
  proof (intro allI impI)
    fix st s
    assume "switchRune ((c, p) # cases) dflt buffer st = Matched s"
    then have "p st = Matched s \<or> switchRune cases dflt buffer st = Matched s"
      by (simp split: if_splits)
    then show "position st < position s \<and> position s \<le> n"
      using consumingD [OF p] consumingD [OF r] by blast
  qed
qed

text \<open>
  Every loop of the parser is \<^verbatim>\<open>l: if !body() { restore; exit }; goto l\<close>. A function
  that satisfies this equation for a consuming body moves the cursor forward and stays
  inside the buffer.
\<close>

lemma steady_loop:
  assumes unfold: "\<And>st. L st = (case B st of Matched s \<Rightarrow> L s | Failed m \<Rightarrow> st\<lparr>maxTok := m\<rparr>)"
    and B: "consuming n B"
  shows "steady n (\<lambda>st. Matched (L st))"
proof -
  have "position st \<le> position (L st) \<and> (position (L st) \<le> n \<or> position (L st) = position st)"
    for st
  proof (induction "n - position st" arbitrary: st rule: less_induct)
    case less
    show ?case
    proof (cases "B st")
      case (Matched s)
      with B have p: "position st < position s" "position s \<le> n"
        by (auto simp: consuming_def)
      then have "n - position s < n - position st" by arith
      from less [OF this] p unfold [of st] Matched show ?thesis by auto
    next
      case (Failed m)
      with unfold [of st] show ?thesis by simp
    qed
  qed
  then show ?thesis by (simp add: steady_def)
qed

subsection \<open>Character classes\<close>

text \<open>
  A loop \<^verbatim>\<open>l: if !body { restore; goto out }; goto l; out:\<close> is a recursive function; it
  terminates because its body consumes at least one rune of the buffer.
\<close>

function classLoop :: "(char \<Rightarrow> bool) \<Rightarrow> char list \<Rightarrow> pstate \<Rightarrow> pstate" where
  "classLoop P buffer st =
     (case matchClass P buffer st of
        Matched s \<Rightarrow> classLoop P buffer s
      | Failed m \<Rightarrow> st\<lparr>maxTok := m\<rparr>)"
  by pat_completeness auto
termination
  by (relation "measure (\<lambda>(P, buffer, st). length buffer - position st)")
     (auto intro: loop_measure [OF consuming_matchClass])

declare classLoop.simps [simp del]

text \<open>\<^verbatim>\<open>[...]+\<close>: one rune of the class, then as many as follow.\<close>

definition classPlus :: "(char \<Rightarrow> bool) \<Rightarrow> char list \<Rightarrow> rule" where
  "classPlus P buffer = andThen (matchClass P buffer) (\<lambda>s. Matched (classLoop P buffer s))"

definition inRange :: "char \<Rightarrow> char \<Rightarrow> char \<Rightarrow> bool" where
  "inRange lo hi c = (\<not> (c < lo \<or> c > hi))"

definition isDigit :: "char \<Rightarrow> bool" where
  "isDigit c = inRange CHR ''0'' CHR ''9'' c"

text \<open>
  The switch of \<^verbatim>\<open>Identifier\<close> accepts \<^verbatim>\<open>. _ -\<close>, the digits, the capitals and (its
  default case) the small letters; the one of \<^verbatim>\<open>StringValue\<close> accepts \<^verbatim>\<open>/\<close> and
  \<^verbatim>\<open>:\<close> as well.
\<close>

definition isIdentifierRune :: "char \<Rightarrow> bool" where
  "isIdentifierRune c =
     (c = CHR ''.'' \<or> c = CHR ''_'' \<or> c = CHR ''-'' \<or> inRange CHR ''0'' CHR ''9'' c
      \<or> inRange CHR ''A'' CHR ''Z'' c \<or> inRange CHR ''a'' CHR ''z'' c)"

definition isStringValueRune :: "char \<Rightarrow> bool" where
  "isStringValueRune c =
     (c = CHR ''/'' \<or> c = CHR '':'' \<or> c = CHR ''_'' \<or> c = CHR ''.'' \<or> c = CHR ''-''
      \<or> inRange CHR ''0'' CHR ''9'' c \<or> inRange CHR ''A'' CHR ''Z'' c
      \<or> inRange CHR ''a'' CHR ''z'' c)"

definition digits :: "char list \<Rightarrow> rule" where
  "digits buffer = classPlus isDigit buffer"

lemma steady_classLoop: "steady (length buffer) (\<lambda>st. Matched (classLoop P buffer st))"
  by (rule steady_loop [OF classLoop.simps consuming_matchClass])

lemma consuming_classPlus: "consuming (length buffer) (classPlus P buffer)"
  unfolding classPlus_def
  by (rule consuming_andThen1 [OF consuming_matchClass steady_classLoop])

lemma consuming_digits: "consuming (length buffer) (digits buffer)"
  by (simp add: digits_def consuming_classPlus)

subsection \<open>Spacing\<close>

text \<open>
  \<^verbatim>\<open>Whitespace <- ' ' / tab\<close>.
\<close>

definition Whitespace :: "char list \<Rightarrow> rule" where
  "Whitespace buffer =
     token ruleWhitespace (orElse (matchRune CHR '' '' buffer) (matchRune CHR 0x09 buffer))"

text \<open>
  \<^verbatim>\<open>EndOfLine <- CR LF / LF / CR\<close>, in that order.
\<close>

definition EndOfLine :: "char list \<Rightarrow> rule" where
  "EndOfLine buffer =
     token ruleEndOfLine
       (orElse (andThen (matchRune CHR 0x0D buffer) (matchRune CHR 0x0A buffer))
       (orElse (matchRune CHR 0x0A buffer) (matchRune CHR 0x0D buffer)))"

text \<open>
  \<^verbatim>\<open>Space <- Whitespace / EndOfLine\<close>.
\<close>

definition Space :: "char list \<Rightarrow> rule" where
  "Space buffer = token ruleSpace (orElse (Whitespace buffer) (EndOfLine buffer))"

lemma consuming_Whitespace: "consuming (length buffer) (Whitespace buffer)"
  unfolding Whitespace_def
  by (intro consuming_token consuming_orElse consuming_matchRune)

lemma consuming_EndOfLine: "consuming (length buffer) (EndOfLine buffer)"
  unfolding EndOfLine_def
  by (intro consuming_token consuming_orElse consuming_matchRune
            consuming_andThen1 consuming_steady)

lemma consuming_Space: "consuming (length buffer) (Space buffer)"
  unfolding Space_def
  by (intro consuming_token consuming_orElse consuming_Whitespace consuming_EndOfLine)

text \<open>
  The loops \<^verbatim>\<open>Space*\<close>, \<^verbatim>\<open>Whitespace*\<close> and \<^verbatim>\<open>EndOfLine*\<close>.
\<close>

function SpaceLoop :: "char list \<Rightarrow> pstate \<Rightarrow> pstate" where
  "SpaceLoop buffer st =
     (case Space buffer st of
        Matched s \<Rightarrow> SpaceLoop buffer s
      | Failed m \<Rightarrow> st\<lparr>maxTok := m\<rparr>)"
  by pat_completeness auto
termination
  by (relation "measure (\<lambda>(buffer, st). length buffer - position st)")
     (auto intro: loop_measure [OF consuming_Space])

declare SpaceLoop.simps [simp del]

function WhitespaceLoop :: "char list \<Rightarrow> pstate \<Rightarrow> pstate" where
  "WhitespaceLoop buffer st =
     (case Whitespace buffer st of
        Matched s \<Rightarrow> WhitespaceLoop buffer s
      | Failed m \<Rightarrow> st\<lparr>maxTok := m\<rparr>)"
  by pat_completeness auto
termination
  by (relation "measure (\<lambda>(buffer, st). length buffer - position st)")
     (auto intro: loop_measure [OF consuming_Whitespace])

declare WhitespaceLoop.simps [simp del]

function EndOfLineLoop :: "char list \<Rightarrow> pstate \<Rightarrow> pstate" where
  "EndOfLineLoop buffer st =
     (case EndOfLine buffer st of
        Matched s \<Rightarrow> EndOfLineLoop buffer s
      | Failed m \<Rightarrow> st\<lparr>maxTok := m\<rparr>)"
  by pat_completeness auto
termination
  by (relation "measure (\<lambda>(buffer, st). length buffer - position st)")
     (auto intro: loop_measure [OF consuming_EndOfLine])

declare EndOfLineLoop.simps [simp del]

text \<open>
  \<^verbatim>\<open>Spacing <- Space*\<close>, \<^verbatim>\<open>WhiteSpacing <- Whitespace*\<close>, \<^verbatim>\<open>MustWhiteSpacing <- Whitespace+\<close> and
  \<^verbatim>\<open>Equal <- Spacing '=' Spacing\<close>. A star never fails.
\<close>

definition Spacing :: "char list \<Rightarrow> rule" where
  "Spacing buffer = token ruleSpacing (\<lambda>st. Matched (SpaceLoop buffer st))"

definition WhiteSpacing :: "char list \<Rightarrow> rule" where
  "WhiteSpacing buffer = token ruleWhiteSpacing (\<lambda>st. Matched (WhitespaceLoop buffer st))"

definition MustWhiteSpacing :: "char list \<Rightarrow> rule" where
  "MustWhiteSpacing buffer =
     token ruleMustWhiteSpacing
       (andThen (Whitespace buffer) (\<lambda>s. Matched (WhitespaceLoop buffer s)))"

definition Equal :: "char list \<Rightarrow> rule" where
  "Equal buffer =
     token ruleEqual
       (andThen (Spacing buffer) (andThen (matchRune CHR ''='' buffer) (Spacing buffer)))"

lemma steady_Spacing: "steady (length buffer) (Spacing buffer)"
  unfolding Spacing_def
  by (intro steady_token steady_loop [OF SpaceLoop.simps consuming_Space])

lemma steady_WhitespaceLoop: "steady (length buffer) (\<lambda>st. Matched (WhitespaceLoop buffer st))"
  by (rule steady_loop [OF WhitespaceLoop.simps consuming_Whitespace])

lemma steady_EndOfLineLoop: "steady (length buffer) (\<lambda>st. Matched (EndOfLineLoop buffer st))"
  by (rule steady_loop [OF EndOfLineLoop.simps consuming_EndOfLine])

lemma steady_WhiteSpacing: "steady (length buffer) (WhiteSpacing buffer)"
  unfolding WhiteSpacing_def
  by (intro steady_token steady_WhitespaceLoop)

lemma consuming_MustWhiteSpacing: "consuming (length buffer) (MustWhiteSpacing buffer)"
  unfolding MustWhiteSpacing_def
  by (intro consuming_token consuming_andThen1 consuming_Whitespace steady_WhitespaceLoop)

lemma consuming_Equal: "consuming (length buffer) (Equal buffer)"
  unfolding Equal_def
  by (intro consuming_token consuming_andThen2 [OF steady_Spacing]
            consuming_andThen1 [OF consuming_matchRune] steady_Spacing)

subsection \<open>Identifiers and values\<close>

text \<open>
  \<^verbatim>\<open>Identifier <- [a-zA-Z0-9-_.]+\<close> and \<^verbatim>\<open>StringValue <- [a-zA-Z0-9-._:/]+\<close>.
\<close>

definition Identifier :: "char list \<Rightarrow> rule" where
  "Identifier buffer = token ruleIdentifier (classPlus isIdentifierRune buffer)"

definition StringValue :: "char list \<Rightarrow> rule" where
  "StringValue buffer = token ruleStringValue (classPlus isStringValueRune buffer)"

text \<open>
  \<^verbatim>\<open>CidrValue <- [0-9]+.[0-9]+.[0-9]+.[0-9]+'/'[0-9]+\<close> and
  \<^verbatim>\<open>IpValue <- [0-9]+.[0-9]+.[0-9]+.[0-9]+\<close>: between the groups of digits the grammar has a
  bare \<^verbatim>\<open>.\<close>, for which the generated parser calls \<^verbatim>\<open>matchDot\<close>; the slash is a literal.
\<close>

definition CidrValue :: "char list \<Rightarrow> rule" where
  "CidrValue buffer =
     token ruleCidrValue
       (andThen (digits buffer) (andThen (matchDot buffer)
       (andThen (digits buffer) (andThen (matchDot buffer)
       (andThen (digits buffer) (andThen (matchDot buffer)
       (andThen (digits buffer) (andThen (matchRune CHR ''/'' buffer) (digits buffer)))))))))"

definition IpValue :: "char list \<Rightarrow> rule" where
  "IpValue buffer =
     token ruleIpValue
       (andThen (digits buffer) (andThen (matchDot buffer)
       (andThen (digits buffer) (andThen (matchDot buffer)
       (andThen (digits buffer) (andThen (matchDot buffer) (digits buffer)))))))"

text \<open>
  \<^verbatim>\<open>CSVValue <- (StringValue WhiteSpacing ',' WhiteSpacing)+ StringValue\<close>: one item with its
  comma, the loop over further items, then the last item.
\<close>

definition CSVItem :: "char list \<Rightarrow> rule" where
  "CSVItem buffer =
     andThen (StringValue buffer) (andThen (WhiteSpacing buffer)
       (andThen (matchRune CHR '','' buffer) (WhiteSpacing buffer)))"

lemma consuming_Identifier: "consuming (length buffer) (Identifier buffer)"
  unfolding Identifier_def by (intro consuming_token consuming_classPlus)

lemma consuming_StringValue: "consuming (length buffer) (StringValue buffer)"
  unfolding StringValue_def by (intro consuming_token consuming_classPlus)

lemma consuming_CSVItem: "consuming (length buffer) (CSVItem buffer)"
  unfolding CSVItem_def
  by (intro consuming_andThen1 [OF consuming_StringValue] steady_andThen steady_WhiteSpacing
            consuming_steady [OF consuming_matchRune])

function CSVLoop :: "char list \<Rightarrow> pstate \<Rightarrow> pstate" where
  "CSVLoop buffer st =
     (case CSVItem buffer st of
        Matched s \<Rightarrow> CSVLoop buffer s
      | Failed m \<Rightarrow> st\<lparr>maxTok := m\<rparr>)"
  by pat_completeness auto
termination
  by (relation "measure (\<lambda>(buffer, st). length buffer - position st)")
     (auto intro: loop_measure [OF consuming_CSVItem])

declare CSVLoop.simps [simp del]

definition CSVValue :: "char list \<Rightarrow> rule" where
  "CSVValue buffer =
     token ruleCSVValue
       (andThen (CSVItem buffer)
       (andThen (\<lambda>s. Matched (CSVLoop buffer s)) (StringValue buffer)))"

text \<open>
  \<^verbatim>\<open>IntRangeValue <- [0-9]+'-'[0-9]+\<close> and \<^verbatim>\<open>IntValue <- [0-9]+\<close>.
\<close>

definition IntRangeValue :: "char list \<Rightarrow> rule" where
  "IntRangeValue buffer =
     token ruleIntRangeValue
       (andThen (digits buffer) (andThen (matchRune CHR ''-'' buffer) (digits buffer)))"

definition IntValue :: "char list \<Rightarrow> rule" where
  "IntValue buffer = token ruleIntValue (digits buffer)"

text \<open>
  \<^verbatim>\<open>RefValue <- '$'<Identifier>\<close>, \<^verbatim>\<open>AliasValue <- <'@'StringValue>\<close> and
  \<^verbatim>\<open>HoleValue <- '{'WhiteSpacing<Identifier>WhiteSpacing'}'\<close>. The angle brackets are the
  token \<^verbatim>\<open>PegText\<close>, whose span becomes \<^verbatim>\<open>text\<close> in \<^verbatim>\<open>Execute\<close>.
\<close>

definition RefValue :: "char list \<Rightarrow> rule" where
  "RefValue buffer =
     token ruleRefValue
       (andThen (matchRune CHR ''$'' buffer) (token rulePegText (Identifier buffer)))"

definition AliasValue :: "char list \<Rightarrow> rule" where
  "AliasValue buffer =
     token ruleAliasValue
       (token rulePegText (andThen (matchRune CHR ''@'' buffer) (StringValue buffer)))"

definition HoleValue :: "char list \<Rightarrow> rule" where
  "HoleValue buffer =
     token ruleHoleValue
       (andThen (matchRune CHR ''{'' buffer) (andThen (WhiteSpacing buffer)
       (andThen (token rulePegText (Identifier buffer)) (andThen (WhiteSpacing buffer)
       (matchRune CHR ''}'' buffer)))))"

text \<open>
  The alternatives of \<^verbatim>\<open>Value\<close>, in the order of the generated parser:
  \<^verbatim>\<open>(<CidrValue> Action8) / (<IpValue> Action9) / (<CSVValue> Action10) /
  (<IntRangeValue> Action11) / (<IntValue> Action12) / (switch on the rune under the cursor)\<close>.
  The grammar lists \<^verbatim>\<open>HoleValue\<close>, \<^verbatim>\<open>AliasValue\<close> and \<^verbatim>\<open>RefValue\<close> first; the generator
  moved them, with \<^verbatim>\<open>StringValue\<close>, into the switch that ends the chain (the cases
  \<^verbatim>\<open>$\<close>, \<^verbatim>\<open>@\<close>, \<^verbatim>\<open>{\<close> and the default). The actions 5 to 13 are the calls
  \<^verbatim>\<open>addParamHoleValue\<close>, \<^verbatim>\<open>addParamValue\<close>, \<^verbatim>\<open>addParamRefValue\<close>, \<^verbatim>\<open>addParamCidrValue\<close>,
  \<^verbatim>\<open>addParamIpValue\<close>, \<^verbatim>\<open>addCsvValue\<close>, \<^verbatim>\<open>addParamValue\<close>, \<^verbatim>\<open>addParamIntValue\<close> and
  \<^verbatim>\<open>addParamValue\<close> of \<^verbatim>\<open>Execute\<close>.
\<close>

definition ValueCidr :: "char list \<Rightarrow> rule" where
  "ValueCidr buffer = andThen (token rulePegText (CidrValue buffer)) (emit ruleAction8)"

definition ValueIp :: "char list \<Rightarrow> rule" where
  "ValueIp buffer = andThen (token rulePegText (IpValue buffer)) (emit ruleAction9)"

definition ValueCSV :: "char list \<Rightarrow> rule" where
  "ValueCSV buffer = andThen (token rulePegText (CSVValue buffer)) (emit ruleAction10)"

definition ValueIntRange :: "char list \<Rightarrow> rule" where
  "ValueIntRange buffer = andThen (token rulePegText (IntRangeValue buffer)) (emit ruleAction11)"

definition ValueInt :: "char list \<Rightarrow> rule" where
  "ValueInt buffer = andThen (token rulePegText (IntValue buffer)) (emit ruleAction12)"

definition ValueSwitch :: "char list \<Rightarrow> rule" where
  "ValueSwitch buffer =
     switchRune
       [(CHR ''$'', andThen (RefValue buffer) (emit ruleAction7)),
        (CHR ''@'', andThen (AliasValue buffer) (emit ruleAction6)),
        (CHR ''{'', andThen (HoleValue buffer) (emit ruleAction5))]
       (andThen (token rulePegText (StringValue buffer)) (emit ruleAction13))
       buffer"

definition Value :: "char list \<Rightarrow> rule" where
  "Value buffer =
     token ruleValue
       (orElse (ValueCidr buffer)
       (orElse (ValueIp buffer)
       (orElse (ValueCSV buffer)
       (orElse (ValueIntRange buffer)
       (orElse (ValueInt buffer) (ValueSwitch buffer))))))"

text \<open>
  \<^verbatim>\<open>Param <- <Identifier> { p.addParamKey(text) } Equal Value WhiteSpacing\<close> and
  \<^verbatim>\<open>Params <- Param+\<close>.
\<close>

definition Param :: "char list \<Rightarrow> rule" where
  "Param buffer =
     token ruleParam
       (andThen (token rulePegText (Identifier buffer)) (andThen (emit ruleAction4)
       (andThen (Equal buffer) (andThen (Value buffer) (WhiteSpacing buffer)))))"

lemmas steady_leaves [steady_intros] =
  consuming_steady [OF consuming_matchRune] consuming_steady [OF consuming_matchDot]
  consuming_steady [OF consuming_digits] consuming_steady [OF consuming_Identifier]
  consuming_steady [OF consuming_StringValue] consuming_steady [OF consuming_Equal]
  consuming_steady [OF consuming_MustWhiteSpacing] consuming_steady [OF consuming_CSVItem]
  steady_Spacing steady_WhiteSpacing steady_WhitespaceLoop steady_EndOfLineLoop
  steady_loop [OF CSVLoop.simps consuming_CSVItem]

lemma consuming_CidrValue: "consuming (length buffer) (CidrValue buffer)"
  unfolding CidrValue_def
  by (intro consuming_token consuming_andThen1 [OF consuming_digits] steady_intros)

lemma consuming_IpValue: "consuming (length buffer) (IpValue buffer)"
  unfolding IpValue_def
  by (intro consuming_token consuming_andThen1 [OF consuming_digits] steady_intros)

lemma consuming_CSVValue: "consuming (length buffer) (CSVValue buffer)"
  unfolding CSVValue_def
  by (intro consuming_token consuming_andThen1 [OF consuming_CSVItem] steady_intros)

lemma consuming_IntRangeValue: "consuming (length buffer) (IntRangeValue buffer)"
  unfolding IntRangeValue_def
  by (intro consuming_token consuming_andThen1 [OF consuming_digits] steady_intros)

lemma consuming_IntValue: "consuming (length buffer) (IntValue buffer)"
  unfolding IntValue_def
  by (intro consuming_token consuming_digits)

lemma consuming_RefValue: "consuming (length buffer) (RefValue buffer)"
  unfolding RefValue_def
  by (intro consuming_token consuming_andThen1 [OF consuming_matchRune] steady_intros)

lemma consuming_AliasValue: "consuming (length buffer) (AliasValue buffer)"
  unfolding AliasValue_def
  by (intro consuming_token consuming_andThen1 [OF consuming_matchRune] steady_intros)

lemma consuming_HoleValue: "consuming (length buffer) (HoleValue buffer)"
  unfolding HoleValue_def
  by (intro consuming_token consuming_andThen1 [OF consuming_matchRune] steady_intros)

lemma consuming_ValueSwitch: "consuming (length buffer) (ValueSwitch buffer)"
  unfolding ValueSwitch_def
  by (rule consuming_switchRune)
     (simp_all add: consuming_andThen1 consuming_token consuming_RefValue
        consuming_AliasValue consuming_HoleValue consuming_StringValue steady_emit)

lemma consuming_Value: "consuming (length buffer) (Value buffer)"
  unfolding Value_def ValueCidr_def ValueIp_def ValueCSV_def ValueIntRange_def ValueInt_def
  by (intro consuming_token consuming_orElse consuming_ValueSwitch)
     (simp_all add: consuming_andThen1 consuming_token consuming_CidrValue consuming_IpValue
        consuming_CSVValue consuming_IntRangeValue consuming_IntValue steady_emit)

lemma consuming_Param: "consuming (length buffer) (Param buffer)"
  unfolding Param_def
  by (intro consuming_token consuming_andThen1 [OF consuming_token [OF consuming_Identifier]]
            steady_intros consuming_steady [OF consuming_Value])

function ParamLoop :: "char list \<Rightarrow> pstate \<Rightarrow> pstate" where
  "ParamLoop buffer st =
     (case Param buffer st of
        Matched s \<Rightarrow> ParamLoop buffer s
      | Failed m \<Rightarrow> st\<lparr>maxTok := m\<rparr>)"
  by pat_completeness auto
termination
  by (relation "measure (\<lambda>(buffer, st). length buffer - position st)")
     (auto intro: loop_measure [OF consuming_Param])

declare ParamLoop.simps [simp del]

definition Params :: "char list \<Rightarrow> rule" where
  "Params buffer =
     token ruleParams (andThen (Param buffer) (\<lambda>s. Matched (ParamLoop buffer s)))"

lemma consuming_Params: "consuming (length buffer) (Params buffer)"
  unfolding Params_def
  by (intro consuming_token consuming_andThen1 [OF consuming_Param]
            steady_loop [OF ParamLoop.simps consuming_Param])

subsection \<open>Expressions\<close>

text \<open>
  The literals of \<^verbatim>\<open>Action\<close> and \<^verbatim>\<open>Entity\<close>, in the order in which the generated
  parser tries them: first the alternatives it kept as such, then the cases of its switch on the rune
  under the cursor, whose default case is \<^verbatim>\<open>'none'\<close>. The generated parser has the
  entity \<^verbatim>\<open>listener\<close>, which the grammar at the head of the file does not list; the
  model follows the generated parser, which is the code that runs.
\<close>

definition Actions :: "string list" where
  "Actions = [''create'', ''delete'', ''start'', ''detach'', ''check'', ''attach'', ''update'',
              ''stop'', ''none'']"

definition Entities :: "string list" where
  "Entities = [''vpc'', ''subnet'', ''instance'', ''tag'', ''role'', ''securitygroup'',
               ''routetable'', ''storageobject'', ''loadbalancer'', ''listener'', ''queue'',
               ''topic'', ''subscription'', ''bucket'', ''route'', ''internetgateway'',
               ''keypair'', ''policy'', ''group'', ''user'', ''volume'', ''none'']"

definition Action :: "char list \<Rightarrow> rule" where
  "Action buffer =
     orElse (matchString ''create'' buffer)
    (orElse (matchString ''delete'' buffer)
    (orElse (matchString ''start'' buffer)
      (switchRune
         [(CHR ''d'', matchString ''detach'' buffer),
          (CHR ''c'', matchString ''check'' buffer),
          (CHR ''a'', matchString ''attach'' buffer),
          (CHR ''u'', matchString ''update'' buffer),
          (CHR ''s'', matchString ''stop'' buffer)]
         (matchString ''none'' buffer)
         buffer)))"

definition Entity :: "char list \<Rightarrow> rule" where
  "Entity buffer =
     orElse (matchString ''vpc'' buffer)
    (orElse (matchString ''subnet'' buffer)
    (orElse (matchString ''instance'' buffer)
    (orElse (matchString ''tag'' buffer)
    (orElse (matchString ''role'' buffer)
    (orElse (matchString ''securitygroup'' buffer)
    (orElse (matchString ''routetable'' buffer)
    (orElse (matchString ''storageobject'' buffer)
    (orElse (matchString ''loadbalancer'' buffer)
      (switchRune
         [(CHR ''l'', matchString ''listener'' buffer),
          (CHR ''q'', matchString ''queue'' buffer),
          (CHR ''t'', matchString ''topic'' buffer),
          (CHR ''s'', matchString ''subscription'' buffer),
          (CHR ''b'', matchString ''bucket'' buffer),
          (CHR ''r'', matchString ''route'' buffer),
          (CHR ''i'', matchString ''internetgateway'' buffer),
          (CHR ''k'', matchString ''keypair'' buffer),
          (CHR ''p'', matchString ''policy'' buffer),
          (CHR ''g'', matchString ''group'' buffer),
          (CHR ''u'', matchString ''user'' buffer),
          (CHR ''v'', matchString ''volume'' buffer)]
         (matchString ''none'' buffer)
         buffer)))))))))"

text \<open>
  \<^verbatim>\<open>Expr <- <Action> { p.addAction(text) } MustWhiteSpacing <Entity> { p.addEntity(text) }\<close>
  \<^verbatim>\<open>(MustWhiteSpacing Params)? { p.LineDone() }\<close>: the actions are 1, 2 and 3.
\<close>

definition Expr :: "char list \<Rightarrow> rule" where
  "Expr buffer =
     token ruleExpr
       (andThen (token rulePegText (token ruleAction (Action buffer)))
       (andThen (emit ruleAction1)
       (andThen (MustWhiteSpacing buffer)
       (andThen (token rulePegText (token ruleEntity (Entity buffer)))
       (andThen (emit ruleAction2)
       (andThen (optional (andThen (MustWhiteSpacing buffer) (Params buffer)))
                (emit ruleAction3)))))))"

lemma consuming_Action: "consuming (length buffer) (Action buffer)"
  unfolding Action_def
  by (intro consuming_orElse consuming_switchRune) (simp_all add: consuming_matchString)

lemma consuming_Entity: "consuming (length buffer) (Entity buffer)"
  unfolding Entity_def
  by (intro consuming_orElse consuming_switchRune) (simp_all add: consuming_matchString)

lemmas steady_leaves2 [steady_intros] =
  consuming_steady [OF consuming_Action] consuming_steady [OF consuming_Entity]
  consuming_steady [OF consuming_Params]

lemma consuming_Expr: "consuming (length buffer) (Expr buffer)"
  unfolding Expr_def
  by (intro consuming_token
        consuming_andThen1 [OF consuming_token [OF consuming_token [OF consuming_Action]]]
        steady_intros)

subsection \<open>Statements and the script\<close>

text \<open>
  \<^verbatim>\<open>Declaration <- <Identifier> { p.addDeclarationIdentifier(text) } Equal Expr\<close>.
\<close>

definition Declaration :: "char list \<Rightarrow> rule" where
  "Declaration buffer =
     token ruleDeclaration
       (andThen (token rulePegText (Identifier buffer))
       (andThen (emit ruleAction0)
       (andThen (Equal buffer) (Expr buffer))))"

text \<open>
  \<^verbatim>\<open>Comment <- '#'(!EndOfLine .)* / '//'(!EndOfLine .)* { p.LineDone() }\<close>. A sequence binds
  tighter than \<^verbatim>\<open>/\<close>, so the action (number 14) belongs to the second alternative:
  the generated parser adds \<^verbatim>\<open>ruleAction14\<close> after the loop of the \<^verbatim>\<open>//\<close> branch only.
\<close>

definition CommentRune :: "char list \<Rightarrow> rule" where
  "CommentRune buffer = andThen (notAhead (EndOfLine buffer)) (matchDot buffer)"

lemma consuming_CommentRune: "consuming (length buffer) (CommentRune buffer)"
  unfolding CommentRune_def
  by (intro consuming_andThen2 [OF steady_notAhead] consuming_matchDot)

function CommentLoop :: "char list \<Rightarrow> pstate \<Rightarrow> pstate" where
  "CommentLoop buffer st =
     (case CommentRune buffer st of
        Matched s \<Rightarrow> CommentLoop buffer s
      | Failed m \<Rightarrow> st\<lparr>maxTok := m\<rparr>)"
  by pat_completeness auto
termination
  by (relation "measure (\<lambda>(buffer, st). length buffer - position st)")
     (auto intro: loop_measure [OF consuming_CommentRune])

declare CommentLoop.simps [simp del]

definition Comment :: "char list \<Rightarrow> rule" where
  "Comment buffer =
     token ruleComment
       (orElse (andThen (matchRune CHR ''#'' buffer) (\<lambda>s. Matched (CommentLoop buffer s)))
               (andThen (matchRune CHR ''/'' buffer)
               (andThen (matchRune CHR ''/'' buffer)
               (andThen (\<lambda>s. Matched (CommentLoop buffer s)) (emit ruleAction14)))))"

text \<open>
  \<^verbatim>\<open>Statement <- Spacing (Expr / Declaration / Comment) Spacing EndOfLine*\<close>.
\<close>

definition Statement :: "char list \<Rightarrow> rule" where
  "Statement buffer =
     token ruleStatement
       (andThen (Spacing buffer)
       (andThen (orElse (Expr buffer) (orElse (Declaration buffer) (Comment buffer)))
       (andThen (Spacing buffer) (\<lambda>s. Matched (EndOfLineLoop buffer s)))))"

lemmas steady_CommentLoop [steady_intros] = steady_loop [OF CommentLoop.simps consuming_CommentRune]

lemma consuming_Declaration: "consuming (length buffer) (Declaration buffer)"
  unfolding Declaration_def
  by (intro consuming_token consuming_andThen1 [OF consuming_token [OF consuming_Identifier]]
            steady_intros consuming_steady [OF consuming_Expr])

lemma consuming_Comment: "consuming (length buffer) (Comment buffer)"
  unfolding Comment_def
  by (intro consuming_token consuming_orElse consuming_andThen1 [OF consuming_matchRune]
            steady_intros)

lemma consuming_Statement: "consuming (length buffer) (Statement buffer)"
  unfolding Statement_def
  by (intro consuming_token consuming_andThen2 [OF steady_Spacing] consuming_andThen1
            consuming_orElse consuming_Expr consuming_Declaration consuming_Comment
            steady_intros)

function StatementLoop :: "char list \<Rightarrow> pstate \<Rightarrow> pstate" where
  "StatementLoop buffer st =
     (case Statement buffer st of
        Matched s \<Rightarrow> StatementLoop buffer s
      | Failed m \<Rightarrow> st\<lparr>maxTok := m\<rparr>)"
  by pat_completeness auto
termination
  by (relation "measure (\<lambda>(buffer, st). length buffer - position st)")
     (auto intro: loop_measure [OF consuming_Statement])

declare StatementLoop.simps [simp del]

text \<open>
  \<^verbatim>\<open>EndOfFile <- !.\<close> and \<^verbatim>\<open>Script <- Spacing Statement+ EndOfFile\<close>.
\<close>

definition EndOfFile :: "char list \<Rightarrow> rule" where
  "EndOfFile buffer = token ruleEndOfFile (notAhead (matchDot buffer))"

definition Script :: "char list \<Rightarrow> rule" where
  "Script buffer =
     token ruleScript
       (andThen (Spacing buffer)
       (andThen (Statement buffer)
       (andThen (\<lambda>s. Matched (StatementLoop buffer s)) (EndOfFile buffer))))"

text \<open>
  \<^verbatim>\<open>Init\<close> and \<^verbatim>\<open>reset\<close>: the cursor at 0, no token, and the zero token as
  \<^verbatim>\<open>max\<close>. \<^verbatim>\<open>Parse\<close> runs the rule \<^verbatim>\<open>Script\<close> from there and returns the tokens (the
  tree trimmed to \<^verbatim>\<open>tokenIndex\<close>), or the error, which holds \<^verbatim>\<open>max\<close>.
\<close>

definition reset :: pstate where
  "reset = \<lparr>position = 0, tree = [],
            maxTok = \<lparr>pegRule = ruleUnknown, tbegin = 0, tend = 0\<rparr>\<rparr>"

definition Parse :: "char list \<Rightarrow> token32 + token32 list" where
  "Parse buffer = (case Script buffer reset of
                     Matched s \<Rightarrow> Inr (tree s)
                   | Failed m \<Rightarrow> Inl m)"

subsection \<open>Execute\<close>

text \<open>
  \<^verbatim>\<open>Execute\<close> walks the tokens in order: a \<^verbatim>\<open>PegText\<close> token sets \<^verbatim>\<open>text\<close> to its span
  of the buffer, an action token calls a method of the builder with the current
  \<^verbatim>\<open>text\<close>, any other token does nothing. The builder is not part of the parser, so the
  result is the list of the calls made, in order; \<open>slice xs i j\<close> is \<^verbatim>\<open>xs[i:j]\<close> for
  \<open>i \<le> j \<le> length xs\<close>.
\<close>

datatype call =
    addDeclarationIdentifier string
  | addAction string
  | addEntity string
  | LineDone
  | addParamKey string
  | addParamHoleValue string
  | addParamValue string
  | addParamRefValue string
  | addParamCidrValue string
  | addParamIpValue string
  | addCsvValue string
  | addParamIntValue string

definition slice :: "'a list \<Rightarrow> nat \<Rightarrow> nat \<Rightarrow> 'a list" where
  "slice xs i j = take (j - i) (drop i xs)"

fun callOf :: "pegRule \<Rightarrow> string \<Rightarrow> call option" where
  "callOf ruleAction0 tx = Some (addDeclarationIdentifier tx)"
| "callOf ruleAction1 tx = Some (addAction tx)"
| "callOf ruleAction2 tx = Some (addEntity tx)"
| "callOf ruleAction3 tx = Some LineDone"
| "callOf ruleAction4 tx = Some (addParamKey tx)"
| "callOf ruleAction5 tx = Some (addParamHoleValue tx)"
| "callOf ruleAction6 tx = Some (addParamValue tx)"
| "callOf ruleAction7 tx = Some (addParamRefValue tx)"
| "callOf ruleAction8 tx = Some (addParamCidrValue tx)"
| "callOf ruleAction9 tx = Some (addParamIpValue tx)"
| "callOf ruleAction10 tx = Some (addCsvValue tx)"
| "callOf ruleAction11 tx = Some (addParamValue tx)"
| "callOf ruleAction12 tx = Some (addParamIntValue tx)"
| "callOf ruleAction13 tx = Some (addParamValue tx)"
| "callOf ruleAction14 tx = Some LineDone"
| "callOf _ tx = None"

fun ExecuteFrom :: "char list \<Rightarrow> string \<Rightarrow> token32 list \<Rightarrow> call list" where
  "ExecuteFrom buffer tx [] = []"
| "ExecuteFrom buffer tx (t # ts) =
     (if pegRule t = rulePegText
      then ExecuteFrom buffer (slice buffer (tbegin t) (tend t)) ts
      else (case callOf (pegRule t) tx of
              Some c \<Rightarrow> c # ExecuteFrom buffer tx ts
            | None \<Rightarrow> ExecuteFrom buffer tx ts))"

definition Execute :: "char list \<Rightarrow> token32 list \<Rightarrow> call list" where
  "Execute buffer tokens = ExecuteFrom buffer [] tokens"

subsection \<open>What a rule leaves behind\<close>

text \<open>
  The invariant of the parser state. The token \<^verbatim>\<open>max\<close> is the zero token of \<^verbatim>\<open>reset\<close>
  or a non-empty span inside the text, labelled with a rule other than \<^verbatim>\<open>Unknown\<close>;
  the cursor is at most at the end symbol.
\<close>

definition zeroToken :: token32 where
  "zeroToken = \<lparr>pegRule = ruleUnknown, tbegin = 0, tend = 0\<rparr>"

definition tokInv :: "char list \<Rightarrow> token32 \<Rightarrow> bool" where
  "tokInv b m = (m = zeroToken
     \<or> (tbegin m < tend m \<and> tend m \<le> length b \<and> pegRule m \<noteq> ruleUnknown))"

definition stInv :: "char list \<Rightarrow> pstate \<Rightarrow> bool" where
  "stInv b st = (position st \<le> length b \<and> tokInv b (maxTok st))"

text \<open>
  \<open>sound b Q p\<close>: from a state with the invariant, \<open>p\<close> keeps the invariant, never
  moves the cursor back, only appends tokens to the tree, and the tokens \<open>ts\<close> it appends
  while moving from \<open>a\<close> to \<open>e\<close> satisfy \<open>Q a e ts\<close>; when it fails, the \<^verbatim>\<open>max\<close> it
  hands back has the invariant. \<open>appendable Q\<close>: \<open>Q\<close> holds of no tokens and of the
  tokens of two pieces that follow each other.
\<close>

definition sound :: "char list \<Rightarrow> (nat \<Rightarrow> nat \<Rightarrow> token32 list \<Rightarrow> bool) \<Rightarrow> rule \<Rightarrow> bool" where
  "sound b Q p = (\<forall>st. stInv b st \<longrightarrow>
     (case p st of
        Matched s \<Rightarrow> stInv b s \<and> position st \<le> position s
          \<and> (\<exists>ts. tree s = tree st @ ts \<and> Q (position st) (position s) ts)
      | Failed m \<Rightarrow> tokInv b m))"

definition appendable :: "(nat \<Rightarrow> nat \<Rightarrow> token32 list \<Rightarrow> bool) \<Rightarrow> bool" where
  "appendable Q = ((\<forall>a. Q a a [])
     \<and> (\<forall>a e c xs ys. a \<le> e \<and> e \<le> c \<and> Q a e xs \<and> Q e c ys \<longrightarrow> Q a c (xs @ ys)))"

lemma soundD_Matched:
  "sound b Q p \<Longrightarrow> stInv b st \<Longrightarrow> p st = Matched s \<Longrightarrow>
     stInv b s \<and> position st \<le> position s
     \<and> (\<exists>ts. tree s = tree st @ ts \<and> Q (position st) (position s) ts)"
  unfolding sound_def by (drule spec [of _ st]) simp

lemma soundD_Failed:
  "sound b Q p \<Longrightarrow> stInv b st \<Longrightarrow> p st = Failed m \<Longrightarrow> tokInv b m"
  unfolding sound_def by (drule spec [of _ st]) simp

lemma soundI:
  assumes "\<And>st s. stInv b st \<Longrightarrow> p st = Matched s \<Longrightarrow>
             stInv b s \<and> position st \<le> position s
             \<and> (\<exists>ts. tree s = tree st @ ts \<and> Q (position st) (position s) ts)"
    and "\<And>st m. stInv b st \<Longrightarrow> p st = Failed m \<Longrightarrow> tokInv b m"
  shows "sound b Q p"
  unfolding sound_def
proof (intro allI impI)
  fix st
  assume i: "stInv b st"
  show "case p st of
          Matched s \<Rightarrow> stInv b s \<and> position st \<le> position s
            \<and> (\<exists>ts. tree s = tree st @ ts \<and> Q (position st) (position s) ts)
        | Failed m \<Rightarrow> tokInv b m"
    using assms(1) [OF i] assms(2) [OF i] by (cases "p st") simp_all
qed

lemma stInv_restore: "stInv b st \<Longrightarrow> tokInv b m \<Longrightarrow> stInv b (st\<lparr>maxTok := m\<rparr>)"
  by (simp add: stInv_def)

lemma stInv_add:
  "stInv b s \<Longrightarrow> a \<le> position s \<Longrightarrow> r \<noteq> ruleUnknown \<Longrightarrow> stInv b (add r a s)"
  by (auto simp: stInv_def add_def tokInv_def)

lemma stInv_add_same: "stInv b s \<Longrightarrow> stInv b (add r (position s) s)"
  by (auto simp: stInv_def add_def)

lemma sound_weaken:
  assumes p: "sound b Q p"
    and w: "\<And>a e ts. a \<le> e \<Longrightarrow> e \<le> length b \<Longrightarrow> Q a e ts \<Longrightarrow> Q' a e ts"
  shows "sound b Q' p"
proof (rule soundI)
  fix st s
  assume i: "stInv b st" and m: "p st = Matched s"
  from soundD_Matched [OF p i m] obtain ts where
    1: "stInv b s" "position st \<le> position s" "tree s = tree st @ ts"
       "Q (position st) (position s) ts"
    by blast
  from 1 have "position s \<le> length b" by (simp add: stInv_def)
  with 1 w show "stInv b s \<and> position st \<le> position s
     \<and> (\<exists>ts. tree s = tree st @ ts \<and> Q' (position st) (position s) ts)"
    by blast
next
  fix st m
  assume "stInv b st" and "p st = Failed m"
  then show "tokInv b m" by (rule soundD_Failed [OF p])
qed

lemma sound_andThen_gen:
  assumes p: "sound b Q1 p" and q: "sound b Q2 q"
    and c: "\<And>a e c xs ys. a \<le> e \<Longrightarrow> e \<le> c \<Longrightarrow> c \<le> length b \<Longrightarrow> Q1 a e xs \<Longrightarrow> Q2 e c ys
              \<Longrightarrow> Q a c (xs @ ys)"
  shows "sound b Q (andThen p q)"
proof (rule soundI)
  fix st s
  assume i: "stInv b st" and m: "andThen p q st = Matched s"
  from m obtain s1 where m1: "p st = Matched s1" and m2: "q s1 = Matched s"
    by (auto simp: andThen_def split: outcome.splits)
  from soundD_Matched [OF p i m1] obtain xs where
    1: "stInv b s1" "position st \<le> position s1" "tree s1 = tree st @ xs"
       "Q1 (position st) (position s1) xs"
    by blast
  from soundD_Matched [OF q 1(1) m2] obtain ys where
    2: "stInv b s" "position s1 \<le> position s" "tree s = tree s1 @ ys"
       "Q2 (position s1) (position s) ys"
    by blast
  from 2 have "position s \<le> length b" by (simp add: stInv_def)
  from c [OF 1(2) 2(2) this 1(4) 2(4)] 1 2
  show "stInv b s \<and> position st \<le> position s
     \<and> (\<exists>ts. tree s = tree st @ ts \<and> Q (position st) (position s) ts)"
    by auto
next
  fix st m
  assume i: "stInv b st" and f: "andThen p q st = Failed m"
  show "tokInv b m"
  proof (cases "p st")
    case (Matched s1)
    with f have "q s1 = Failed m" by (simp add: andThen_def)
    with soundD_Matched [OF p i Matched] soundD_Failed [OF q] show ?thesis by blast
  next
    case (Failed m')
    with f have "m' = m" by (simp add: andThen_def)
    with soundD_Failed [OF p i Failed] show ?thesis by simp
  qed
qed

lemma appendableD1: "appendable Q \<Longrightarrow> Q a a []"
  by (simp add: appendable_def)

lemma appendableD2:
  "appendable Q \<Longrightarrow> a \<le> e \<Longrightarrow> e \<le> c \<Longrightarrow> Q a e xs \<Longrightarrow> Q e c ys \<Longrightarrow> Q a c (xs @ ys)"
  unfolding appendable_def by blast

lemma sound_andThen:
  "appendable Q \<Longrightarrow> sound b Q p \<Longrightarrow> sound b Q q \<Longrightarrow> sound b Q (andThen p q)"
  by (rule sound_andThen_gen [where ?Q1.0 = Q and ?Q2.0 = Q]) (auto intro: appendableD2)

lemma sound_orElse:
  assumes p: "sound b Q p" and q: "sound b Q q"
  shows "sound b Q (orElse p q)"
proof (rule soundI)
  fix st s
  assume i: "stInv b st" and m: "orElse p q st = Matched s"
  show "stInv b s \<and> position st \<le> position s
     \<and> (\<exists>ts. tree s = tree st @ ts \<and> Q (position st) (position s) ts)"
  proof (cases "p st")
    case (Matched s1)
    with m have "s1 = s" by (simp add: orElse_def)
    with soundD_Matched [OF p i Matched] show ?thesis by simp
  next
    case (Failed m1)
    with m have 1: "q (st\<lparr>maxTok := m1\<rparr>) = Matched s" by (simp add: orElse_def)
    have "stInv b (st\<lparr>maxTok := m1\<rparr>)"
      by (rule stInv_restore [OF i soundD_Failed [OF p i Failed]])
    from soundD_Matched [OF q this 1] show ?thesis by simp
  qed
next
  fix st m
  assume i: "stInv b st" and f: "orElse p q st = Failed m"
  from f obtain m1 where 1: "p st = Failed m1" and 2: "q (st\<lparr>maxTok := m1\<rparr>) = Failed m"
    by (auto simp: orElse_def split: outcome.splits)
  have "stInv b (st\<lparr>maxTok := m1\<rparr>)"
    by (rule stInv_restore [OF i soundD_Failed [OF p i 1]])
  from soundD_Failed [OF q this 2] show "tokInv b m" .
qed

lemma sound_token:
  assumes p: "sound b Q' p" and r: "r \<noteq> ruleUnknown"
    and c: "\<And>a e ts. a \<le> e \<Longrightarrow> e \<le> length b \<Longrightarrow> Q' a e ts
              \<Longrightarrow> Q a e (ts @ [\<lparr>pegRule = r, tbegin = a, tend = e\<rparr>])"
  shows "sound b Q (token r p)"
proof (rule soundI)
  fix st s
  assume i: "stInv b st" and m: "token r p st = Matched s"
  from m obtain s1 where m1: "p st = Matched s1" and s: "s = add r (position st) s1"
    by (auto simp: token_def split: outcome.splits)
  from soundD_Matched [OF p i m1] obtain ts where
    1: "stInv b s1" "position st \<le> position s1" "tree s1 = tree st @ ts"
       "Q' (position st) (position s1) ts"
    by blast
  from 1 have le: "position s1 \<le> length b" by (simp add: stInv_def)
  have "stInv b s" unfolding s by (rule stInv_add [OF 1(1) 1(2) r])
  moreover have "position s = position s1" by (simp add: s add_def)
  moreover have "tree s = tree st @ (ts @ [\<lparr>pegRule = r, tbegin = position st, tend = position s1\<rparr>])"
    by (simp add: s add_def 1)
  ultimately show "stInv b s \<and> position st \<le> position s
     \<and> (\<exists>ts. tree s = tree st @ ts \<and> Q (position st) (position s) ts)"
    using c [OF 1(2) le 1(4)] 1(2) by auto
next
  fix st m
  assume i: "stInv b st" and f: "token r p st = Failed m"
  then have "p st = Failed m" by (auto simp: token_def split: outcome.splits)
  from soundD_Failed [OF p i this] show "tokInv b m" .
qed

lemma sound_emit:
  assumes c: "\<And>a. a \<le> length b \<Longrightarrow> Q a a [\<lparr>pegRule = r, tbegin = a, tend = a\<rparr>]"
  shows "sound b Q (emit r)"
proof (rule soundI)
  fix st s
  assume i: "stInv b st" and m: "emit r st = Matched s"
  from m have s: "s = add r (position st) st" by (simp add: emit_def)
  from i have "position st \<le> length b" by (simp add: stInv_def)
  from c [OF this] stInv_add_same [OF i]
  show "stInv b s \<and> position st \<le> position s
     \<and> (\<exists>ts. tree s = tree st @ ts \<and> Q (position st) (position s) ts)"
    by (simp add: s) (simp add: add_def)
next
  fix st m
  assume "emit r st = Failed m"
  then show "tokInv b m" by (simp add: emit_def)
qed

lemma sound_notAhead:
  assumes p: "sound b Q' p" and c: "\<And>a. Q a a []"
  shows "sound b Q (notAhead p)"
proof (rule soundI)
  fix st s
  assume i: "stInv b st" and m: "notAhead p st = Matched s"
  from m obtain m1 where 1: "p st = Failed m1" and s: "s = st\<lparr>maxTok := m1\<rparr>"
    by (auto simp: notAhead_def split: outcome.splits)
  from stInv_restore [OF i soundD_Failed [OF p i 1]] c
  show "stInv b s \<and> position st \<le> position s
     \<and> (\<exists>ts. tree s = tree st @ ts \<and> Q (position st) (position s) ts)"
    by (simp add: s)
next
  fix st m
  assume i: "stInv b st" and f: "notAhead p st = Failed m"
  from f obtain s1 where 1: "p st = Matched s1" and m: "m = maxTok s1"
    by (auto simp: notAhead_def split: outcome.splits)
  from soundD_Matched [OF p i 1] show "tokInv b m" by (simp add: m stInv_def)
qed

lemma sound_optional:
  assumes p: "sound b Q p" and c: "\<And>a. Q a a []"
  shows "sound b Q (optional p)"
proof (rule soundI)
  fix st s
  assume i: "stInv b st" and m: "optional p st = Matched s"
  show "stInv b s \<and> position st \<le> position s
     \<and> (\<exists>ts. tree s = tree st @ ts \<and> Q (position st) (position s) ts)"
  proof (cases "p st")
    case (Matched s1)
    with m have "s1 = s" by (simp add: optional_def)
    with soundD_Matched [OF p i Matched] show ?thesis by simp
  next
    case (Failed m1)
    with m have s: "s = st\<lparr>maxTok := m1\<rparr>" by (simp add: optional_def)
    from stInv_restore [OF i soundD_Failed [OF p i Failed]] c show ?thesis by (simp add: s)
  qed
next
  fix st m
  assume "optional p st = Failed m"
  then show "tokInv b m" by (simp add: optional_def split: outcome.splits)
qed

lemma sound_matchClass:
  assumes c: "\<And>a. a < length b \<Longrightarrow> P (b ! a) \<Longrightarrow> Q a (Suc a) []"
  shows "sound b Q (matchClass P b)"
proof (rule soundI)
  fix st s
  assume i: "stInv b st" and m: "matchClass P b st = Matched s"
  note 1 = matchClass_Matched [OF m]
  from 1 c i show "stInv b s \<and> position st \<le> position s
     \<and> (\<exists>ts. tree s = tree st @ ts \<and> Q (position st) (position s) ts)"
    by (auto simp: stInv_def)
next
  fix st m
  assume i: "stInv b st" and f: "matchClass P b st = Failed m"
  then show "tokInv b m"
    by (auto simp: matchClass_def stInv_def split: option.splits if_splits)
qed

lemma sound_matchString:
  assumes c: "\<And>a. a + length lit \<le> length b \<Longrightarrow> slice b a (a + length lit) = lit
              \<Longrightarrow> Q a (a + length lit) []"
    and n: "lit \<noteq> []"
  shows "sound b Q (matchString lit b)"
proof (rule soundI)
  fix st s
  assume i: "stInv b st" and m: "matchString lit b st = Matched s"
  note 1 = matchString_Matched [OF m]
  from 1 n have 2: "position st + length lit \<le> length b"
    "slice b (position st) (position st + length lit) = lit"
    by (simp_all add: slice_def)
  from c [OF 2] 1 i 2 show "stInv b s \<and> position st \<le> position s
     \<and> (\<exists>ts. tree s = tree st @ ts \<and> Q (position st) (position s) ts)"
    by (auto simp: stInv_def)
next
  fix st m
  assume i: "stInv b st" and f: "matchString lit b st = Failed m"
  have "matchString lit b st = Failed m \<Longrightarrow> m = maxTok st" for st
  proof (induction lit arbitrary: st)
    case Nil
    then show ?case by simp
  next
    case (Cons c cs)
    show ?case
    proof (cases "matchClass (\<lambda>x. x = c) b st")
      case (Matched s1)
      with Cons.prems have "matchString cs b s1 = Failed m" by (simp add: matchRune_def)
      from Cons.IH [OF this] matchClass_Matched [OF Matched] show ?thesis by simp
    next
      case (Failed m1)
      with Cons.prems have "m1 = m" by (simp add: matchRune_def)
      with Failed show ?thesis
        by (auto simp: matchClass_def split: option.splits if_splits)
    qed
  qed
  from this [OF f] i show "tokInv b m" by (simp add: stInv_def)
qed

lemma sound_switchRune:
  "list_all (\<lambda>cp. sound b Q (snd cp)) cases \<Longrightarrow> sound b Q dflt
     \<Longrightarrow> sound b Q (switchRune cases dflt b)"
proof (induction cases)
  case Nil
  then show ?case by (simp add: sound_def)
next
  case (Cons cp cases)
  obtain c p where cp: "cp = (c, p)" by (cases cp)
  from Cons.prems have p: "sound b Q p" and r: "sound b Q (switchRune cases dflt b)"
    using Cons.IH by (simp_all add: cp)
  show ?case
    unfolding sound_def cp
  proof (intro allI impI)
    fix st
    assume i: "stInv b st"
    from p r i show "case switchRune ((c, p) # cases) dflt b st of
        Matched s \<Rightarrow> stInv b s \<and> position st \<le> position s
          \<and> (\<exists>ts. tree s = tree st @ ts \<and> Q (position st) (position s) ts)
      | Failed m \<Rightarrow> tokInv b m"
      by (simp add: sound_def)
  qed
qed

lemma sound_loop:
  assumes unfold: "\<And>st. L st = (case B st of Matched s \<Rightarrow> L s | Failed m \<Rightarrow> st\<lparr>maxTok := m\<rparr>)"
    and c: "consuming (length b) B"
    and B: "sound b Q B"
    and a: "appendable Q"
  shows "sound b Q (\<lambda>st. Matched (L st))"
proof -
  have "stInv b st \<Longrightarrow> stInv b (L st) \<and> position st \<le> position (L st)
     \<and> (\<exists>ts. tree (L st) = tree st @ ts \<and> Q (position st) (position (L st)) ts)" for st
  proof (induction "length b - position st" arbitrary: st rule: less_induct)
    case less
    note i = less.prems
    show ?case
    proof (cases "B st")
      case (Matched s)
      from consumingD [OF c Matched] have "length b - position s < length b - position st"
        by arith
      note soundD_Matched [OF B i Matched]
      then obtain xs where
        1: "stInv b s" "position st \<le> position s" "tree s = tree st @ xs"
           "Q (position st) (position s) xs"
        by blast
      from less.hyps [OF \<open>length b - position s < length b - position st\<close> 1(1)]
      obtain ys where
        2: "stInv b (L s)" "position s \<le> position (L s)" "tree (L s) = tree s @ ys"
           "Q (position s) (position (L s)) ys"
        by blast
      have l: "L st = L s" using unfold [of st] Matched by simp
      from appendableD2 [OF a 1(2) 2(2) 1(4) 2(4)] 1 2 show ?thesis
        unfolding l by auto
    next
      case (Failed m)
      have l: "L st = st\<lparr>maxTok := m\<rparr>" using unfold [of st] Failed by simp
      from stInv_restore [OF i soundD_Failed [OF B i Failed]] appendableD1 [OF a]
      show ?thesis unfolding l by simp
    qed
  qed
  then show ?thesis by (intro soundI) auto
qed

lemma sound_token_strict:
  assumes p: "sound b Q' p" and k: "consuming (length b) p" and r: "r \<noteq> ruleUnknown"
    and c: "\<And>a e ts. a < e \<Longrightarrow> e \<le> length b \<Longrightarrow> Q' a e ts
              \<Longrightarrow> Q a e (ts @ [\<lparr>pegRule = r, tbegin = a, tend = e\<rparr>])"
  shows "sound b Q (token r p)"
proof -
  let ?Q = "\<lambda>a e ts. a < e \<and> Q' a e ts"
  have "sound b ?Q p"
  proof (rule soundI)
    fix st s
    assume i: "stInv b st" and m: "p st = Matched s"
    from soundD_Matched [OF p i m] consumingD [OF k m]
    show "stInv b s \<and> position st \<le> position s
       \<and> (\<exists>ts. tree s = tree st @ ts \<and> ?Q (position st) (position s) ts)"
      by auto
  next
    fix st m
    assume "stInv b st" and "p st = Failed m"
    then show "tokInv b m" by (rule soundD_Failed [OF p])
  qed
  then show ?thesis
    by (rule sound_token [OF _ r]) (simp add: c)
qed

subsection \<open>Tokens that do not name an action or an entity\<close>

text \<open>
  Tokens that are neither the action of \<^verbatim>\<open>addAction\<close>, nor that of \<^verbatim>\<open>addEntity\<close>, nor
  a statement. A property is \<open>roomy\<close> when it is appendable and holds of such tokens:
  every rule below \<^verbatim>\<open>Expr\<close> but \<^verbatim>\<open>Action\<close> and \<^verbatim>\<open>Entity\<close> is sound for every roomy property.
\<close>

definition quiet :: "token32 list \<Rightarrow> bool" where
  "quiet ts = list_all (\<lambda>t. pegRule t \<noteq> ruleAction1 \<and> pegRule t \<noteq> ruleAction2
                             \<and> pegRule t \<noteq> ruleStatement) ts"

definition roomy :: "(nat \<Rightarrow> nat \<Rightarrow> token32 list \<Rightarrow> bool) \<Rightarrow> bool" where
  "roomy Q = (appendable Q \<and> (\<forall>a e ts. quiet ts \<longrightarrow> Q a e ts))"

lemma roomy_quiet: "roomy (\<lambda>a e. quiet)"
  by (simp add: roomy_def appendable_def quiet_def)

lemma roomyD: "roomy Q \<Longrightarrow> quiet ts \<Longrightarrow> Q a e ts"
  by (simp add: roomy_def)

lemma roomy_appendable: "roomy Q \<Longrightarrow> appendable Q"
  by (simp add: roomy_def)

lemma roomy_snoc:
  assumes "roomy Q" and "a \<le> e" and "Q a e ts" and "quiet [t]"
  shows "Q a e (ts @ [t])"
  by (rule appendableD2 [OF roomy_appendable [OF assms(1)] assms(2) le_refl assms(3)
        roomyD [OF assms(1) assms(4)]])

named_theorems roomy_intros

lemma r_token [roomy_intros]:
  assumes q: "roomy Q"
    and p: "sound b Q p"
    and r: "r \<noteq> ruleUnknown \<and> r \<noteq> ruleAction1 \<and> r \<noteq> ruleAction2 \<and> r \<noteq> ruleStatement"
  shows "sound b Q (token r p)"
proof (rule sound_token [OF p])
  from r show "r \<noteq> ruleUnknown" by simp
next
  fix a e ts
  assume "a \<le> e" and "Q a e ts"
  then show "Q a e (ts @ [\<lparr>pegRule = r, tbegin = a, tend = e\<rparr>])"
    using r by (intro roomy_snoc [OF q]) (simp_all add: quiet_def)
qed

lemma r_emit [roomy_intros]:
  assumes q: "roomy Q"
    and r: "r \<noteq> ruleAction1 \<and> r \<noteq> ruleAction2 \<and> r \<noteq> ruleStatement"
  shows "sound b Q (emit r)"
  by (rule sound_emit) (rule roomyD [OF q], simp add: quiet_def r)

lemma r_andThen [roomy_intros]:
  "roomy Q \<Longrightarrow> sound b Q p \<Longrightarrow> sound b Q q \<Longrightarrow> sound b Q (andThen p q)"
  by (rule sound_andThen [OF roomy_appendable])

lemma r_orElse [roomy_intros]:
  "roomy Q \<Longrightarrow> sound b Q p \<Longrightarrow> sound b Q q \<Longrightarrow> sound b Q (orElse p q)"
  by (rule sound_orElse)

lemma r_optional [roomy_intros]: "roomy Q \<Longrightarrow> sound b Q p \<Longrightarrow> sound b Q (optional p)"
  by (rule sound_optional) (auto intro: roomyD simp: quiet_def)

lemma r_notAhead [roomy_intros]: "roomy Q \<Longrightarrow> sound b Q p \<Longrightarrow> sound b Q (notAhead p)"
  by (rule sound_notAhead) (auto intro: roomyD simp: quiet_def)

lemma r_matchClass [roomy_intros]: "roomy Q \<Longrightarrow> sound b Q (matchClass P b)"
  by (rule sound_matchClass) (auto intro: roomyD simp: quiet_def)

lemma r_matchRune [roomy_intros]: "roomy Q \<Longrightarrow> sound b Q (matchRune r b)"
  unfolding matchRune_def by (rule r_matchClass)

lemma r_matchDot [roomy_intros]: "roomy Q \<Longrightarrow> sound b Q (matchDot b)"
  unfolding matchDot_def by (rule r_matchClass)

lemma r_loop:
  assumes "roomy Q"
    and "\<And>st. L st = (case B st of Matched s \<Rightarrow> L s | Failed m \<Rightarrow> st\<lparr>maxTok := m\<rparr>)"
    and "consuming (length b) B"
    and "sound b Q B"
  shows "sound b Q (\<lambda>st. Matched (L st))"
  by (rule sound_loop [OF assms(2) assms(3) assms(4) roomy_appendable [OF assms(1)]])

lemma r_classPlus [roomy_intros]: "roomy Q \<Longrightarrow> sound b Q (classPlus P b)"
  unfolding classPlus_def
  by (intro r_andThen r_matchClass r_loop [OF _ classLoop.simps consuming_matchClass])

lemma r_digits [roomy_intros]: "roomy Q \<Longrightarrow> sound b Q (digits b)"
  unfolding digits_def by (rule r_classPlus)

lemma r_Whitespace [roomy_intros]: "roomy Q \<Longrightarrow> sound b Q (Whitespace b)"
  unfolding Whitespace_def by (intro roomy_intros) simp_all

lemma r_EndOfLine [roomy_intros]: "roomy Q \<Longrightarrow> sound b Q (EndOfLine b)"
  unfolding EndOfLine_def by (intro roomy_intros) simp_all

lemma r_Space [roomy_intros]: "roomy Q \<Longrightarrow> sound b Q (Space b)"
  unfolding Space_def by (intro roomy_intros) simp_all

lemma r_SpaceLoop [roomy_intros]: "roomy Q \<Longrightarrow> sound b Q (\<lambda>st. Matched (SpaceLoop b st))"
  by (intro r_loop [OF _ SpaceLoop.simps consuming_Space] r_Space)

lemma r_WhitespaceLoop [roomy_intros]:
  "roomy Q \<Longrightarrow> sound b Q (\<lambda>st. Matched (WhitespaceLoop b st))"
  by (intro r_loop [OF _ WhitespaceLoop.simps consuming_Whitespace] r_Whitespace)

lemma r_EndOfLineLoop [roomy_intros]:
  "roomy Q \<Longrightarrow> sound b Q (\<lambda>st. Matched (EndOfLineLoop b st))"
  by (intro r_loop [OF _ EndOfLineLoop.simps consuming_EndOfLine] r_EndOfLine)

lemma r_Spacing [roomy_intros]: "roomy Q \<Longrightarrow> sound b Q (Spacing b)"
  unfolding Spacing_def by (intro roomy_intros) simp_all

lemma r_WhiteSpacing [roomy_intros]: "roomy Q \<Longrightarrow> sound b Q (WhiteSpacing b)"
  unfolding WhiteSpacing_def by (intro roomy_intros) simp_all

lemma r_MustWhiteSpacing [roomy_intros]: "roomy Q \<Longrightarrow> sound b Q (MustWhiteSpacing b)"
  unfolding MustWhiteSpacing_def by (intro roomy_intros) simp_all

lemma r_Equal [roomy_intros]: "roomy Q \<Longrightarrow> sound b Q (Equal b)"
  unfolding Equal_def by (intro roomy_intros) simp_all

lemma r_Identifier [roomy_intros]: "roomy Q \<Longrightarrow> sound b Q (Identifier b)"
  unfolding Identifier_def by (intro roomy_intros) simp_all

lemma r_StringValue [roomy_intros]: "roomy Q \<Longrightarrow> sound b Q (StringValue b)"
  unfolding StringValue_def by (intro roomy_intros) simp_all

lemma r_CidrValue [roomy_intros]: "roomy Q \<Longrightarrow> sound b Q (CidrValue b)"
  unfolding CidrValue_def by (intro roomy_intros) simp_all

lemma r_IpValue [roomy_intros]: "roomy Q \<Longrightarrow> sound b Q (IpValue b)"
  unfolding IpValue_def by (intro roomy_intros) simp_all

lemma r_CSVItem [roomy_intros]: "roomy Q \<Longrightarrow> sound b Q (CSVItem b)"
  unfolding CSVItem_def by (intro roomy_intros) simp_all

lemma r_CSVLoop [roomy_intros]: "roomy Q \<Longrightarrow> sound b Q (\<lambda>st. Matched (CSVLoop b st))"
  by (intro r_loop [OF _ CSVLoop.simps consuming_CSVItem] r_CSVItem)

lemma r_CSVValue [roomy_intros]: "roomy Q \<Longrightarrow> sound b Q (CSVValue b)"
  unfolding CSVValue_def by (intro roomy_intros) simp_all

lemma r_IntRangeValue [roomy_intros]: "roomy Q \<Longrightarrow> sound b Q (IntRangeValue b)"
  unfolding IntRangeValue_def by (intro roomy_intros) simp_all

lemma r_IntValue [roomy_intros]: "roomy Q \<Longrightarrow> sound b Q (IntValue b)"
  unfolding IntValue_def by (intro roomy_intros) simp_all

lemma r_RefValue [roomy_intros]: "roomy Q \<Longrightarrow> sound b Q (RefValue b)"
  unfolding RefValue_def by (intro roomy_intros) simp_all

lemma r_AliasValue [roomy_intros]: "roomy Q \<Longrightarrow> sound b Q (AliasValue b)"
  unfolding AliasValue_def by (intro roomy_intros) simp_all

lemma r_HoleValue [roomy_intros]: "roomy Q \<Longrightarrow> sound b Q (HoleValue b)"
  unfolding HoleValue_def by (intro roomy_intros) simp_all

lemma r_ValueSwitch: "roomy Q \<Longrightarrow> sound b Q (ValueSwitch b)"
  unfolding ValueSwitch_def
  apply (rule sound_switchRune)
   apply simp
   apply (intro conjI roomy_intros)
            apply simp_all
  apply (intro roomy_intros)
     apply simp_all
  done

lemma r_Value [roomy_intros]: "roomy Q \<Longrightarrow> sound b Q (Value b)"
  unfolding Value_def ValueCidr_def ValueIp_def ValueCSV_def ValueIntRange_def ValueInt_def
  by (intro roomy_intros r_ValueSwitch) simp_all

lemma r_Param [roomy_intros]: "roomy Q \<Longrightarrow> sound b Q (Param b)"
  unfolding Param_def by (intro roomy_intros) simp_all

lemma r_ParamLoop [roomy_intros]: "roomy Q \<Longrightarrow> sound b Q (\<lambda>st. Matched (ParamLoop b st))"
  by (intro r_loop [OF _ ParamLoop.simps consuming_Param] r_Param)

lemma r_Params [roomy_intros]: "roomy Q \<Longrightarrow> sound b Q (Params b)"
  unfolding Params_def by (intro roomy_intros) simp_all

lemma r_CommentRune: "roomy Q \<Longrightarrow> sound b Q (CommentRune b)"
  unfolding CommentRune_def by (intro roomy_intros) simp_all

lemma r_CommentLoop [roomy_intros]: "roomy Q \<Longrightarrow> sound b Q (\<lambda>st. Matched (CommentLoop b st))"
  by (intro r_loop [OF _ CommentLoop.simps consuming_CommentRune] r_CommentRune)

lemma r_Comment [roomy_intros]: "roomy Q \<Longrightarrow> sound b Q (Comment b)"
  unfolding Comment_def by (intro roomy_intros) simp_all

subsection \<open>The calls of Execute on a parsed template\<close>

text \<open>
  A call is acceptable when it is not \<^verbatim>\<open>addAction\<close> or \<^verbatim>\<open>addEntity\<close> with a text outside
  the literals of the parser. Tokens are \<open>safe\<close> when \<^verbatim>\<open>Execute\<close>, entering them with any
  current \<^verbatim>\<open>text\<close>, makes acceptable calls only.
\<close>

fun callOk :: "call \<Rightarrow> bool" where
  "callOk (addAction t) = (t \<in> set Actions)"
| "callOk (addEntity t) = (t \<in> set Entities)"
| "callOk _ = True"

fun textAfter :: "char list \<Rightarrow> string \<Rightarrow> token32 list \<Rightarrow> string" where
  "textAfter b tx [] = tx"
| "textAfter b tx (t # ts) =
     textAfter b (if pegRule t = rulePegText then slice b (tbegin t) (tend t) else tx) ts"

lemma ExecuteFrom_append:
  "ExecuteFrom b tx (xs @ ys) = ExecuteFrom b tx xs @ ExecuteFrom b (textAfter b tx xs) ys"
  by (induction xs arbitrary: tx) (simp_all split: option.splits)

definition safe :: "char list \<Rightarrow> token32 list \<Rightarrow> bool" where
  "safe b ts = (\<forall>tx. list_all callOk (ExecuteFrom b tx ts))"

lemma safe_Nil: "safe b []"
  by (simp add: safe_def)

lemma safe_append: "safe b xs \<Longrightarrow> safe b ys \<Longrightarrow> safe b (xs @ ys)"
  by (simp add: safe_def ExecuteFrom_append)

lemma callOf_quiet:
  "r \<noteq> ruleAction1 \<Longrightarrow> r \<noteq> ruleAction2 \<Longrightarrow> callOf r tx = Some c \<Longrightarrow> callOk c"
  by (cases r) auto

lemma safe_single:
  "pegRule t \<noteq> ruleAction1 \<Longrightarrow> pegRule t \<noteq> ruleAction2 \<Longrightarrow> safe b [t]"
  by (auto simp: safe_def split: option.splits dest: callOf_quiet)

lemma safe_Cons: "safe b [t] \<Longrightarrow> safe b ts \<Longrightarrow> safe b (t # ts)"
  using safe_append [of b "[t]" ts] by simp

lemma safe_quiet: "quiet ts \<Longrightarrow> safe b ts"
  by (induction ts) (auto simp: quiet_def safe_Nil intro: safe_Cons safe_single)

definition noStatement :: "token32 list \<Rightarrow> bool" where
  "noStatement ts = list_all (\<lambda>t. pegRule t \<noteq> ruleStatement) ts"

definition Qsafe :: "char list \<Rightarrow> nat \<Rightarrow> nat \<Rightarrow> token32 list \<Rightarrow> bool" where
  "Qsafe b a e ts = (safe b ts \<and> noStatement ts)"

lemma roomy_Qsafe: "roomy (Qsafe b)"
  by (auto simp: roomy_def appendable_def Qsafe_def noStatement_def safe_Nil
           intro: safe_append safe_quiet)
     (simp add: quiet_def list_all_iff)

text \<open>
  No token, and the span consumed is one of the literals \<open>S\<close>.
\<close>

definition Qlit :: "char list \<Rightarrow> string list \<Rightarrow> nat \<Rightarrow> nat \<Rightarrow> token32 list \<Rightarrow> bool" where
  "Qlit b S a e ts = (ts = [] \<and> slice b a e \<in> set S)"

lemma lit_matchString:
  "lit \<in> set S \<Longrightarrow> lit \<noteq> [] \<Longrightarrow> sound b (Qlit b S) (matchString lit b)"
  by (rule sound_matchString) (simp_all add: Qlit_def)

lemma Action_lit: "sound b (Qlit b Actions) (Action b)"
  unfolding Action_def
  apply (intro sound_orElse lit_matchString)
        apply (simp_all add: Actions_def)
  apply (rule sound_switchRune)
   apply simp
   apply (intro conjI lit_matchString)
            apply simp_all
  apply (intro lit_matchString)
   apply simp_all
  done

lemma Entity_lit: "sound b (Qlit b Entities) (Entity b)"
  unfolding Entity_def
  apply (intro sound_orElse lit_matchString)
                    apply (simp_all add: Entities_def)
  apply (rule sound_switchRune)
   apply simp
   apply (intro conjI lit_matchString)
                      apply simp_all
  apply (intro lit_matchString)
   apply simp_all
  done

lemma andThen_assoc: "andThen (andThen p q) r = andThen p (andThen q r)"
  by (rule ext) (simp add: andThen_def split: outcome.splits)

lemma head_Action:
  "sound b (Qsafe b)
     (andThen (token rulePegText (token ruleAction (Action b))) (emit ruleAction1))"
proof -
  have 1: "sound b (\<lambda>a e ts. ts = [\<lparr>pegRule = ruleAction, tbegin = a, tend = e\<rparr>]
                      \<and> slice b a e \<in> set Actions) (token ruleAction (Action b))"
    by (rule sound_token [OF Action_lit]) (simp_all add: Qlit_def)
  have 2: "sound b (\<lambda>a e ts. ts = [\<lparr>pegRule = ruleAction, tbegin = a, tend = e\<rparr>,
                                     \<lparr>pegRule = rulePegText, tbegin = a, tend = e\<rparr>]
                      \<and> slice b a e \<in> set Actions)
             (token rulePegText (token ruleAction (Action b)))"
    by (rule sound_token [OF 1]) simp_all
  have 3: "sound b (\<lambda>a e ts. ts = [\<lparr>pegRule = ruleAction1, tbegin = a, tend = a\<rparr>])
             (emit ruleAction1)"
    by (rule sound_emit) simp
  show ?thesis
    by (rule sound_andThen_gen [OF 2 3])
       (simp add: Qsafe_def safe_def noStatement_def)
qed

lemma head_Entity:
  "sound b (Qsafe b)
     (andThen (token rulePegText (token ruleEntity (Entity b))) (emit ruleAction2))"
proof -
  have 1: "sound b (\<lambda>a e ts. ts = [\<lparr>pegRule = ruleEntity, tbegin = a, tend = e\<rparr>]
                      \<and> slice b a e \<in> set Entities) (token ruleEntity (Entity b))"
    by (rule sound_token [OF Entity_lit]) (simp_all add: Qlit_def)
  have 2: "sound b (\<lambda>a e ts. ts = [\<lparr>pegRule = ruleEntity, tbegin = a, tend = e\<rparr>,
                                     \<lparr>pegRule = rulePegText, tbegin = a, tend = e\<rparr>]
                      \<and> slice b a e \<in> set Entities)
             (token rulePegText (token ruleEntity (Entity b)))"
    by (rule sound_token [OF 1]) simp_all
  have 3: "sound b (\<lambda>a e ts. ts = [\<lparr>pegRule = ruleAction2, tbegin = a, tend = a\<rparr>])
             (emit ruleAction2)"
    by (rule sound_emit) simp
  show ?thesis
    by (rule sound_andThen_gen [OF 2 3])
       (simp add: Qsafe_def safe_def noStatement_def)
qed

lemma Expr_regroup:
  "Expr b =
     token ruleExpr
       (andThen (andThen (token rulePegText (token ruleAction (Action b))) (emit ruleAction1))
       (andThen (MustWhiteSpacing b)
       (andThen (andThen (token rulePegText (token ruleEntity (Entity b))) (emit ruleAction2))
       (andThen (optional (andThen (MustWhiteSpacing b) (Params b)))
                (emit ruleAction3)))))"
  by (simp add: Expr_def andThen_assoc)

lemma Expr_safe: "sound b (Qsafe b) (Expr b)"
  unfolding Expr_regroup
  by (intro roomy_intros roomy_Qsafe head_Action head_Entity) simp_all

lemma Declaration_safe: "sound b (Qsafe b) (Declaration b)"
  unfolding Declaration_def
  by (intro roomy_intros roomy_Qsafe Expr_safe) simp_all

subsection \<open>Statements tile the input\<close>

text \<open>
  The statement tokens of a tree, and their tiling: the first begins at \<open>a\<close>, each
  next one begins where the one before it ends, the last one ends at \<open>e\<close>.
\<close>

definition stmts :: "token32 list \<Rightarrow> token32 list" where
  "stmts ts = filter (\<lambda>t. pegRule t = ruleStatement) ts"

fun contiguous :: "nat \<Rightarrow> token32 list \<Rightarrow> nat \<Rightarrow> bool" where
  "contiguous a [] e = (a = e)"
| "contiguous a (t # ts) e = (tbegin t = a \<and> a < tend t \<and> contiguous (tend t) ts e)"

lemma contiguous_append:
  "contiguous a xs e \<Longrightarrow> contiguous e ys c \<Longrightarrow> contiguous a (xs @ ys) c"
  by (induction xs arbitrary: a) auto

lemma stmts_noStatement: "noStatement ts \<Longrightarrow> stmts ts = []"
  by (induction ts) (auto simp: noStatement_def stmts_def)

definition Qstmts :: "char list \<Rightarrow> nat \<Rightarrow> nat \<Rightarrow> token32 list \<Rightarrow> bool" where
  "Qstmts b a e ts = (safe b ts \<and> contiguous a (stmts ts) e)"

lemma appendable_Qstmts: "appendable (Qstmts b)"
  by (auto simp: appendable_def Qstmts_def safe_Nil stmts_def
           intro: safe_append contiguous_append)

lemma consuming_tokenD: "consuming n (token r p) \<Longrightarrow> consuming n p"
  unfolding consuming_def token_def
proof (intro allI impI)
  fix st s
  assume a: "\<forall>st s. (case p st of Matched s \<Rightarrow> Matched (add r (position st) s)
                      | Failed m \<Rightarrow> Failed m) = Matched s
               \<longrightarrow> position st < position s \<and> position s \<le> n"
    and m: "p st = Matched s"
  from a [rule_format, of st "add r (position st) s"] m
  show "position st < position s \<and> position s \<le> n"
    by (simp add: add_def)
qed

lemma Statement_stmts: "sound b (Qstmts b) (Statement b)"
  unfolding Statement_def
proof (rule sound_token_strict [where Q' = "Qsafe b"])
  show "sound b (Qsafe b)
     (andThen (Spacing b)
       (andThen (orElse (Expr b) (orElse (Declaration b) (Comment b)))
         (andThen (Spacing b) (\<lambda>s. Matched (EndOfLineLoop b s)))))"
    by (intro roomy_intros roomy_Qsafe Expr_safe Declaration_safe) 
  show "consuming (length b)
     (andThen (Spacing b)
       (andThen (orElse (Expr b) (orElse (Declaration b) (Comment b)))
         (andThen (Spacing b) (\<lambda>s. Matched (EndOfLineLoop b s)))))"
    using consuming_Statement [of b] unfolding Statement_def by (rule consuming_tokenD)
  show "ruleStatement \<noteq> ruleUnknown" by simp
next
  fix a e ts
  assume "a < e" and "Qsafe b a e ts"
  then show "Qstmts b a e (ts @ [\<lparr>pegRule = ruleStatement, tbegin = a, tend = e\<rparr>])"
    by (auto simp: Qsafe_def Qstmts_def stmts_def noStatement_def list_all_iff
             filter_empty_conv intro!: safe_append safe_single)
qed

lemma StatementLoop_stmts: "sound b (Qstmts b) (\<lambda>st. Matched (StatementLoop b st))"
  by (rule sound_loop [OF StatementLoop.simps consuming_Statement Statement_stmts
        appendable_Qstmts])

subsection \<open>Leading spacing\<close>

text \<open>
  The runes of \<^verbatim>\<open>Space\<close>; \<open>Qspace\<close>: the span consumed holds such runes only.
\<close>

definition isSpaceRune :: "char \<Rightarrow> bool" where
  "isSpaceRune c = (c = CHR '' '' \<or> c = CHR 0x09 \<or> c = CHR 0x0D \<or> c = CHR 0x0A)"

definition Qspace :: "char list \<Rightarrow> nat \<Rightarrow> nat \<Rightarrow> token32 list \<Rightarrow> bool" where
  "Qspace b a e ts = (quiet ts \<and> list_all isSpaceRune (slice b a e))"

lemma slice_append:
  "a \<le> e \<Longrightarrow> e \<le> c \<Longrightarrow> slice b a c = slice b a e @ slice b e c"
proof -
  assume "a \<le> e" and "e \<le> c"
  then have 1: "c - a = (e - a) + (c - e)" and 2: "a + (e - a) = e" by arith+
  show ?thesis
    unfolding slice_def 1 take_add drop_drop
    by (simp add: 2 add.commute)
qed

lemma slice_single: "a < length b \<Longrightarrow> slice b a (Suc a) = [b ! a]"
  using Cons_nth_drop_Suc [of a b] by (simp add: slice_def take_Suc_conv_app_nth)

lemma slice_same: "slice b a a = []"
  by (simp add: slice_def)

lemma appendable_Qspace: "appendable (Qspace b)"
  unfolding appendable_def
proof (intro conjI allI impI)
  fix a
  show "Qspace b a a []" by (simp add: Qspace_def quiet_def slice_same)
next
  fix a e c xs ys
  assume "a \<le> e \<and> e \<le> c \<and> Qspace b a e xs \<and> Qspace b e c ys"
  then show "Qspace b a c (xs @ ys)"
    using slice_append [of a e c b] by (simp add: Qspace_def quiet_def)
qed

lemma Qspace_rune:
  assumes "isSpaceRune r"
  shows "sound b (Qspace b) (matchRune r b)"
  unfolding matchRune_def
proof (rule sound_matchClass)
  fix a
  assume a: "a < length b" and e: "b ! a = r"
  from slice_single [OF a] e assms show "Qspace b a (Suc a) []"
    by (simp add: Qspace_def quiet_def)
qed

lemma Qspace_token:
  "sound b (Qspace b) p \<Longrightarrow> r \<noteq> ruleUnknown \<and> r \<noteq> ruleAction1 \<and> r \<noteq> ruleAction2
     \<and> r \<noteq> ruleStatement \<Longrightarrow> sound b (Qspace b) (token r p)"
  by (rule sound_token [where Q' = "Qspace b"]) (auto simp: Qspace_def quiet_def)

lemma Whitespace_space: "sound b (Qspace b) (Whitespace b)"
  unfolding Whitespace_def
  by (intro Qspace_token sound_orElse Qspace_rune) (simp_all add: isSpaceRune_def)

lemma EndOfLine_space: "sound b (Qspace b) (EndOfLine b)"
  unfolding EndOfLine_def
  by (intro Qspace_token sound_orElse Qspace_rune sound_andThen [OF appendable_Qspace])
     (simp_all add: isSpaceRune_def)

lemma Space_space: "sound b (Qspace b) (Space b)"
  unfolding Space_def
  by (intro Qspace_token sound_orElse Whitespace_space EndOfLine_space) simp_all

lemma Spacing_space: "sound b (Qspace b) (Spacing b)"
  unfolding Spacing_def
  by (intro Qspace_token
        sound_loop [OF SpaceLoop.simps consuming_Space Space_space appendable_Qspace])
     simp_all

subsection \<open>The whole script\<close>

lemma stInv_reset: "stInv b reset"
  by (simp add: stInv_def reset_def tokInv_def zeroToken_def)

lemma EndOfFile_Matched:
  "EndOfFile b st = Matched s \<Longrightarrow>
     length b \<le> position st \<and> s = add ruleEndOfFile (position st) st"
  by (auto simp: EndOfFile_def token_def notAhead_def matchDot_def matchClass_def runeAt_def
           split: outcome.splits option.splits if_splits)

lemma roomy_True: "roomy (\<lambda>a e ts. True)"
  by (simp add: roomy_def appendable_def)

lemma Script_sound: "sound b (\<lambda>a e ts. True) (Script b)"
proof -
  have 1: "sound b (\<lambda>a e ts. True) (Statement b)"
    by (rule sound_weaken [OF Statement_stmts]) simp
  have 2: "sound b (\<lambda>a e ts. True) (\<lambda>st. Matched (StatementLoop b st))"
    by (rule sound_weaken [OF StatementLoop_stmts]) simp
  show ?thesis
    unfolding Script_def EndOfFile_def
    by (intro roomy_intros roomy_True 1 2) simp_all
qed

lemma Script_Failed: "Script b reset = Failed m \<Longrightarrow> tokInv b m"
  by (rule soundD_Failed [OF Script_sound stInv_reset])

lemma andThen_Matched:
  "andThen p q st = Matched s \<Longrightarrow> \<exists>s1. p st = Matched s1 \<and> q s1 = Matched s"
  by (simp add: andThen_def split: outcome.splits)

lemma token_Matched:
  "token r p st = Matched s \<Longrightarrow> \<exists>s1. p st = Matched s1 \<and> s = add r (position st) s1"
  by (simp add: token_def split: outcome.splits)

lemma Script_Matched:
  assumes m: "Script b reset = Matched s"
  shows "\<exists>p0 ts. tree s = ts @ [\<lparr>pegRule = ruleEndOfFile, tbegin = length b, tend = length b\<rparr>,
                                \<lparr>pegRule = ruleScript, tbegin = 0, tend = length b\<rparr>]
           \<and> safe b (tree s)
           \<and> p0 \<le> length b \<and> list_all isSpaceRune (take p0 b)
           \<and> stmts (tree s) \<noteq> [] \<and> contiguous p0 (stmts (tree s)) (length b)"
proof -
  from token_Matched [OF m [unfolded Script_def]] obtain s4 where
    a: "andThen (Spacing b) (andThen (Statement b)
          (andThen (\<lambda>s. Matched (StatementLoop b s)) (EndOfFile b))) reset = Matched s4"
    and s: "s = add ruleScript (position reset) s4"
    by blast
  from andThen_Matched [OF a] obtain s1 where
    1: "Spacing b reset = Matched s1"
    and a1: "andThen (Statement b)
          (andThen (\<lambda>s. Matched (StatementLoop b s)) (EndOfFile b)) s1 = Matched s4"
    by blast
  from andThen_Matched [OF a1] obtain s2 where
    2: "Statement b s1 = Matched s2"
    and a2: "andThen (\<lambda>s. Matched (StatementLoop b s)) (EndOfFile b) s2 = Matched s4"
    by blast
  let ?s3 = "StatementLoop b s2"
  from a2 have 4: "EndOfFile b ?s3 = Matched s4" by (simp add: andThen_def)
  have r0: "position reset = 0" "tree reset = []" by (simp_all add: reset_def)
  from soundD_Matched [OF Spacing_space stInv_reset 1] obtain xs where
    x: "stInv b s1" "tree s1 = xs" "quiet xs" "list_all isSpaceRune (slice b 0 (position s1))"
    unfolding r0 Qspace_def by auto
  from soundD_Matched [OF Statement_stmts x(1) 2] obtain ys where
    y: "stInv b s2" "tree s2 = tree s1 @ ys" "safe b ys"
       "contiguous (position s1) (stmts ys) (position s2)"
    unfolding Qstmts_def by auto
  from consumingD [OF consuming_Statement 2] have lt: "position s1 < position s2" by simp
  have "(\<lambda>st. Matched (StatementLoop b st)) s2 = Matched ?s3" by simp
  from soundD_Matched [OF StatementLoop_stmts y(1) this] obtain zs where
    z: "stInv b ?s3" "tree ?s3 = tree s2 @ zs" "safe b zs"
       "contiguous (position s2) (stmts zs) (position ?s3)"
    unfolding Qstmts_def by auto
  from EndOfFile_Matched [OF 4] z(1) have e1: "position ?s3 = length b"
    by (simp add: stInv_def)
  from EndOfFile_Matched [OF 4] have e2: "s4 = add ruleEndOfFile (length b) ?s3"
    unfolding e1 by simp
  note e = e1 e2
  let ?eof = "\<lparr>pegRule = ruleEndOfFile, tbegin = length b, tend = length b\<rparr>"
  let ?scr = "\<lparr>pegRule = ruleScript, tbegin = 0, tend = length b\<rparr>"
  have t: "tree s = (xs @ ys @ zs) @ [?eof, ?scr]"
    by (simp add: s r0 e add_def x(2) y(2) z(2))
  have q1: "safe b [?eof, ?scr]"
    using safe_append [OF safe_single safe_single, of ?eof ?scr b] by simp
  have sf: "safe b (tree s)"
    unfolding t
    by (intro safe_append safe_quiet [OF x(3)] y(3) z(3) q1)
  from x(3) have nx: "stmts xs = []"
    by (intro stmts_noStatement) (simp add: quiet_def noStatement_def list_all_iff)
  have st: "stmts (tree s) = stmts ys @ stmts zs"
    unfolding t using nx by (simp add: stmts_def)
  from y(4) lt have ne: "stmts ys \<noteq> []" by (cases "stmts ys") simp_all
  from x(1) have p0: "position s1 \<le> length b" by (simp add: stInv_def)
  from x(4) have sp: "list_all isSpaceRune (take (position s1) b)" by (simp add: slice_def)
  from contiguous_append [OF y(4) z(4)] e(1)
  have ct: "contiguous (position s1) (stmts ys @ stmts zs) (length b)" by simp
  show ?thesis
    unfolding st
    by (intro exI [of _ "position s1"] exI [of _ "xs @ ys @ zs"] conjI t sf [unfolded st] p0 sp ct)
       (simp_all add: ne sf)
qed

subsection \<open>Error reporting\<close>

text \<open>The table \<^verbatim>\<open>rul3s\<close> of the names of the rules.\<close>

fun rul3s :: "pegRule \<Rightarrow> string" where
  "rul3s ruleUnknown = ''Unknown''"
| "rul3s ruleScript = ''Script''"
| "rul3s ruleStatement = ''Statement''"
| "rul3s ruleAction = ''Action''"
| "rul3s ruleEntity = ''Entity''"
| "rul3s ruleDeclaration = ''Declaration''"
| "rul3s ruleExpr = ''Expr''"
| "rul3s ruleParams = ''Params''"
| "rul3s ruleParam = ''Param''"
| "rul3s ruleIdentifier = ''Identifier''"
| "rul3s ruleValue = ''Value''"
| "rul3s ruleStringValue = ''StringValue''"
| "rul3s ruleCSVValue = ''CSVValue''"
| "rul3s ruleCidrValue = ''CidrValue''"
| "rul3s ruleIpValue = ''IpValue''"
| "rul3s ruleIntValue = ''IntValue''"
| "rul3s ruleIntRangeValue = ''IntRangeValue''"
| "rul3s ruleRefValue = ''RefValue''"
| "rul3s ruleAliasValue = ''AliasValue''"
| "rul3s ruleHoleValue = ''HoleValue''"
| "rul3s ruleComment = ''Comment''"
| "rul3s ruleSpacing = ''Spacing''"
| "rul3s ruleWhiteSpacing = ''WhiteSpacing''"
| "rul3s ruleMustWhiteSpacing = ''MustWhiteSpacing''"
| "rul3s ruleEqual = ''Equal''"
| "rul3s ruleSpace = ''Space''"
| "rul3s ruleWhitespace = ''Whitespace''"
| "rul3s ruleEndOfLine = ''EndOfLine''"
| "rul3s ruleEndOfFile = ''EndOfFile''"
| "rul3s rulePegText = ''PegText''"
| "rul3s ruleAction0 = ''Action0''"
| "rul3s ruleAction1 = ''Action1''"
| "rul3s ruleAction2 = ''Action2''"
| "rul3s ruleAction3 = ''Action3''"
| "rul3s ruleAction4 = ''Action4''"
| "rul3s ruleAction5 = ''Action5''"
| "rul3s ruleAction6 = ''Action6''"
| "rul3s ruleAction7 = ''Action7''"
| "rul3s ruleAction8 = ''Action8''"
| "rul3s ruleAction9 = ''Action9''"
| "rul3s ruleAction10 = ''Action10''"
| "rul3s ruleAction11 = ''Action11''"
| "rul3s ruleAction12 = ''Action12''"
| "rul3s ruleAction13 = ''Action13''"
| "rul3s ruleAction14 = ''Action14''"

text \<open>
  The rules of the grammar, \<^verbatim>\<open>0 Script\<close> to \<^verbatim>\<open>27 EndOfFile\<close> in the table of the
  generated parser. The other values of \<^verbatim>\<open>pegRule\<close> (\<^verbatim>\<open>ruleUnknown\<close>, \<^verbatim>\<open>rulePegText\<close>
  and the \<^verbatim>\<open>ruleAction\<close>\<open>N\<close>) are the generator's bookkeeping.
\<close>

definition grammarRules :: "pegRule list" where
  "grammarRules =
     [ruleScript, ruleStatement, ruleAction, ruleEntity, ruleDeclaration, ruleExpr,
      ruleParams, ruleParam, ruleIdentifier, ruleValue, ruleStringValue, ruleCSVValue,
      ruleCidrValue, ruleIpValue, ruleIntValue, ruleIntRangeValue, ruleRefValue,
      ruleAliasValue, ruleHoleValue, ruleComment, ruleSpacing, ruleWhiteSpacing,
      ruleMustWhiteSpacing, ruleEqual, ruleSpace, ruleWhitespace, ruleEndOfLine,
      ruleEndOfFile]"

record textPosition =
  line :: nat
  symbol :: nat

type_synonym textPositionMap = "nat \<rightharpoonup> textPosition"

text \<open>
  The inner loop of \<^verbatim>\<open>translatePositions\<close>,
  \<^verbatim>\<open>for j++; j < length; j++ { if i != positions[j] { continue search } }\<close>, on the
  positions after the one just recorded: it skips those equal to \<open>i\<close>.
\<close>

fun skipSame :: "nat \<Rightarrow> nat list \<Rightarrow> nat list" where
  "skipSame i [] = []"
| "skipSame i (p # ps) = (if i \<noteq> p then p # ps else skipSame i ps)"

text \<open>
  The \<^verbatim>\<open>search\<close> loop over the buffer (whose last rune is the end symbol, \<open>None\<close>):
  \<open>ps\<close> is \<^verbatim>\<open>positions[j:]\<close>. The result \<open>None\<close> is the index-out-of-range panic
  of \<^verbatim>\<open>positions[j]\<close> on an empty list of positions.
\<close>

fun translateLoop ::
  "char option list \<Rightarrow> nat \<Rightarrow> nat list \<Rightarrow> nat \<Rightarrow> nat \<Rightarrow> textPositionMap
     \<Rightarrow> textPositionMap option" where
  "translateLoop [] i ps ln sy translations = Some translations"
| "translateLoop (c # cs) i ps ln sy translations =
     (let ln' = (if c = Some (CHR 0x0A) then ln + 1 else ln);
          sy' = (if c = Some (CHR 0x0A) then 0 else sy + 1)
      in case ps of
           [] \<Rightarrow> None
         | p # rest \<Rightarrow>
             if i = p
             then (case skipSame i rest of
                     [] \<Rightarrow> Some (translations(p \<mapsto> \<lparr>line = ln', symbol = sy'\<rparr>))
                   | q # qs \<Rightarrow> translateLoop cs (i + 1) (q # qs) ln' sy'
                               (translations(p \<mapsto> \<lparr>line = ln', symbol = sy'\<rparr>)))
             else translateLoop cs (i + 1) ps ln' sy' translations)"

definition translatePositions :: "char option list \<Rightarrow> nat list \<Rightarrow> textPositionMap option" where
  "translatePositions buffer positions = translateLoop buffer 0 (sort positions) 1 0 Map.empty"

text \<open>
  \<^verbatim>\<open>parseError.Error\<close>. The result holds the arguments of the one \<^verbatim>\<open>Sprintf\<close> call
  that builds the message (the rule name, the four numbers and the text that
  \<^verbatim>\<open>strconv.Quote\<close> is applied to); a map lookup of an absent key gives the zero
  position.
\<close>

record report =
  near :: string
  beginLine :: nat
  beginSymbol :: nat
  endLine :: nat
  endSymbol :: nat
  quoted :: string

definition lookupPosition :: "textPositionMap \<Rightarrow> nat \<Rightarrow> textPosition" where
  "lookupPosition translations k =
     (case translations k of None \<Rightarrow> \<lparr>line = 0, symbol = 0\<rparr> | Some v \<Rightarrow> v)"

definition Error :: "char list \<Rightarrow> token32 \<Rightarrow> report option" where
  "Error b e =
     (case translatePositions (map Some b @ [None]) [tbegin e, tend e] of
        None \<Rightarrow> None
      | Some translations \<Rightarrow>
          Some \<lparr>near = rul3s (pegRule e),
                beginLine = line (lookupPosition translations (tbegin e)),
                beginSymbol = symbol (lookupPosition translations (tbegin e)),
                endLine = line (lookupPosition translations (tend e)),
                endSymbol = symbol (lookupPosition translations (tend e)),
                quoted = slice b (tbegin e) (tend e)\<rparr>)"

text \<open>
  Line and symbol of the rune at index \<open>p\<close>, read off the text: the line is one more
  than the number of newlines among the runes up to and including \<open>p\<close>, the symbol is
  the number of runes after the last of these newlines.
\<close>

definition linesIn :: "char option list \<Rightarrow> nat \<Rightarrow> nat" where
  "linesIn buf n = Suc (length (filter (\<lambda>c. c = Some (CHR 0x0A)) (take n buf)))"

definition symbolsIn :: "char option list \<Rightarrow> nat \<Rightarrow> nat" where
  "symbolsIn buf n = length (takeWhile (\<lambda>c. c \<noteq> Some (CHR 0x0A)) (rev (take n buf)))"

definition lineAt :: "char list \<Rightarrow> nat \<Rightarrow> nat" where
  "lineAt b p = linesIn (map Some b @ [None]) (Suc p)"

definition symbolAt :: "char list \<Rightarrow> nat \<Rightarrow> nat" where
  "symbolAt b p = symbolsIn (map Some b @ [None]) (Suc p)"

lemma linesIn_Suc:
  "i < length buf \<Longrightarrow>
     linesIn buf (Suc i) = (if buf ! i = Some (CHR 0x0A) then linesIn buf i + 1 else linesIn buf i)"
  by (simp add: linesIn_def take_Suc_conv_app_nth)

lemma symbolsIn_Suc:
  "i < length buf \<Longrightarrow>
     symbolsIn buf (Suc i) = (if buf ! i = Some (CHR 0x0A) then 0 else symbolsIn buf i + 1)"
  by (simp add: symbolsIn_def take_Suc_conv_app_nth)

lemma translateLoop_scan:
  assumes "i \<le> p" and "p < length buf"
  shows "translateLoop (drop i buf) i (p # rest) (linesIn buf i) (symbolsIn buf i) tr
     = (case skipSame p rest of
          [] \<Rightarrow> Some (tr(p \<mapsto> \<lparr>line = linesIn buf (Suc p), symbol = symbolsIn buf (Suc p)\<rparr>))
        | q # qs \<Rightarrow> translateLoop (drop (Suc p) buf) (Suc p) (q # qs)
                      (linesIn buf (Suc p)) (symbolsIn buf (Suc p))
                      (tr(p \<mapsto> \<lparr>line = linesIn buf (Suc p), symbol = symbolsIn buf (Suc p)\<rparr>)))"
  using assms
proof (induction "p - i" arbitrary: i)
  case 0
  then have e: "i = p" by simp
  from 0 have d: "drop p buf = buf ! p # drop (Suc p) buf"
    by (simp add: Cons_nth_drop_Suc)
  show ?case
    unfolding e d
    by (simp add: linesIn_Suc [OF \<open>p < length buf\<close>] symbolsIn_Suc [OF \<open>p < length buf\<close>]
             Let_def split: list.splits)
next
  case (Suc n)
  then have lt: "i < p" and il: "i < length buf" and n: "n = p - Suc i" and le: "Suc i \<le> p"
    by simp_all
  have d: "drop i buf = buf ! i # drop (Suc i) buf"
    using il by (simp add: Cons_nth_drop_Suc)
  have "translateLoop (drop i buf) i (p # rest) (linesIn buf i) (symbolsIn buf i) tr
      = translateLoop (drop (Suc i) buf) (Suc i) (p # rest)
          (linesIn buf (Suc i)) (symbolsIn buf (Suc i)) tr"
    unfolding d using lt
    by (simp add: linesIn_Suc [OF il] symbolsIn_Suc [OF il] Let_def)
  also note Suc.hyps(1) [OF n le \<open>p < length buf\<close>]
  finally show ?case .
qed

lemma translatePositions_pair:
  assumes "a \<le> e" and "e < length buf"
  shows "translatePositions buf [a, e]
     = Some (Map.empty(a \<mapsto> \<lparr>line = linesIn buf (Suc a), symbol = symbolsIn buf (Suc a)\<rparr>,
                         e \<mapsto> \<lparr>line = linesIn buf (Suc e), symbol = symbolsIn buf (Suc e)\<rparr>))"
proof -
  from assms have al: "a < length buf" by simp
  have z: "linesIn buf 0 = 1" "symbolsIn buf 0 = 0"
    by (simp_all add: linesIn_def symbolsIn_def)
  note 1 = translateLoop_scan [of 0 a buf "[e]" Map.empty, OF _ al, simplified z drop_0]
  show ?thesis
  proof (cases "a = e")
    case True
    with 1 show ?thesis by (simp add: translatePositions_def)
  next
    case False
    with assms have lt: "Suc a \<le> e" by simp
    note 2 = translateLoop_scan [of "Suc a" e buf "[]", OF lt assms(2)]
    from False 1 2 assms(1) show ?thesis by (simp add: translatePositions_def)
  qed
qed

lemma Error_report:
  assumes "tbegin m \<le> tend m" and "tend m \<le> length b"
  shows "Error b m = Some \<lparr>near = rul3s (pegRule m),
            beginLine = lineAt b (tbegin m), beginSymbol = symbolAt b (tbegin m),
            endLine = lineAt b (tend m), endSymbol = symbolAt b (tend m),
            quoted = slice b (tbegin m) (tend m)\<rparr>"
proof -
  from assms(2) have "tend m < length (map Some b @ [None])" by simp
  from translatePositions_pair [OF assms(1) this] show ?thesis
    by (simp add: Error_def lookupPosition_def lineAt_def symbolAt_def)
qed

subsection \<open>The tokens added during a parse\<close>

text \<open>
  \<^verbatim>\<open>add\<close> is called for every token that a rule completes, also inside an alternative
  that is abandoned afterwards: restoring \<^verbatim>\<open>tokenIndex\<close> forgets such a token, and
  \<^verbatim>\<open>max\<close> keeps it when it reached further than every token before it. \<open>better m t\<close>
  is the value of \<^verbatim>\<open>max\<close> after \<^verbatim>\<open>add\<close> has stored the token \<open>t\<close>, \<open>m\<close> being its value
  before.
\<close>

definition better :: "token32 \<Rightarrow> token32 \<Rightarrow> token32" where
  "better m t = (if tbegin t \<noteq> tend t \<and> tend m < tend t then t else m)"

text \<open>
  To say which tokens were added, a piece of the parser is paired with the list of the
  tokens that it adds when it runs from a state, in the order of the calls of \<^verbatim>\<open>add\<close>.
  There is one pairing for each way of building a piece:
  \<^item> \<open>plain p\<close>, a piece that calls no \<^verbatim>\<open>add\<close>;
  \<^item> \<open>oneToken r p\<close>, a rule \<open>p\<close> that surrounds such a piece with
    \<^verbatim>\<open>begin := position; ...; add(r, begin)\<close>: it adds one token when it matches;
  \<^item> \<open>andThenT\<close>, \<open>orElseT\<close>, \<open>tokenT\<close>, \<open>emitT\<close>, \<open>notAheadT\<close>, \<open>optionalT\<close>,
    \<open>switchRuneT\<close> and \<open>loopT\<close>, which follow \<open>andThen\<close>, \<open>orElse\<close>, \<open>token\<close>,
    \<open>emit\<close>, \<open>notAhead\<close>, \<open>optional\<close>, \<open>switchRune\<close> and the loops: the tokens of the
    first piece, then those of the piece that runs next, if one does.
\<close>

type_synonym traced = "rule \<times> (pstate \<Rightarrow> token32 list)"

definition plain :: "rule \<Rightarrow> traced" where
  "plain p = (p, \<lambda>st. [])"

definition oneToken :: "pegRule \<Rightarrow> rule \<Rightarrow> traced" where
  "oneToken r p =
     (p, \<lambda>st. case p st of
                 Matched s \<Rightarrow> [\<lparr>pegRule = r, tbegin = position st, tend = position s\<rparr>]
               | Failed m \<Rightarrow> [])"

definition andThenT :: "traced \<Rightarrow> traced \<Rightarrow> traced" where
  "andThenT P Q =
     (andThen (fst P) (fst Q),
      \<lambda>st. snd P st @ (case fst P st of Matched s \<Rightarrow> snd Q s | Failed m \<Rightarrow> []))"

definition orElseT :: "traced \<Rightarrow> traced \<Rightarrow> traced" where
  "orElseT P Q =
     (orElse (fst P) (fst Q),
      \<lambda>st. snd P st @ (case fst P st of
                          Matched s \<Rightarrow> []
                        | Failed m \<Rightarrow> snd Q (st\<lparr>maxTok := m\<rparr>)))"

definition tokenT :: "pegRule \<Rightarrow> traced \<Rightarrow> traced" where
  "tokenT r P =
     (token r (fst P),
      \<lambda>st. snd P st @ (case fst P st of
                          Matched s \<Rightarrow> [\<lparr>pegRule = r, tbegin = position st, tend = position s\<rparr>]
                        | Failed m \<Rightarrow> []))"

definition emitT :: "pegRule \<Rightarrow> traced" where
  "emitT r = (emit r, \<lambda>st. [\<lparr>pegRule = r, tbegin = position st, tend = position st\<rparr>])"

definition notAheadT :: "traced \<Rightarrow> traced" where
  "notAheadT P = (notAhead (fst P), snd P)"

definition optionalT :: "traced \<Rightarrow> traced" where
  "optionalT P = (optional (fst P), snd P)"

fun switchAdded :: "(char \<times> traced) list \<Rightarrow> traced \<Rightarrow> char list \<Rightarrow> pstate \<Rightarrow> token32 list" where
  "switchAdded [] dflt buffer st = snd dflt st"
| "switchAdded ((c, P) # cases) dflt buffer st =
     (if runeAt buffer (position st) = Some c then snd P st
      else switchAdded cases dflt buffer st)"

definition switchRuneT :: "(char \<times> traced) list \<Rightarrow> traced \<Rightarrow> char list \<Rightarrow> traced" where
  "switchRuneT cases dflt buffer =
     (switchRune (map (\<lambda>(c, P). (c, fst P)) cases) (fst dflt) buffer,
      switchAdded cases dflt buffer)"

text \<open>
  A loop runs its body until the body fails; the failed attempt adds its tokens too. The
  body consumes a rune each time it matches, so from a cursor at \<open>p\<close> it runs at most
  \<open>length buffer - p\<close> times with success and once more.
\<close>

fun loopAdded :: "traced \<Rightarrow> nat \<Rightarrow> pstate \<Rightarrow> token32 list" where
  "loopAdded B 0 st = []"
| "loopAdded B (Suc n) st =
     snd B st @ (case fst B st of Matched s \<Rightarrow> loopAdded B n s | Failed m \<Rightarrow> [])"

definition loopT :: "(pstate \<Rightarrow> pstate) \<Rightarrow> traced \<Rightarrow> char list \<Rightarrow> traced" where
  "loopT L B buffer =
     (\<lambda>st. Matched (L st), \<lambda>st. loopAdded B (Suc (length buffer - position st)) st)"

text \<open>The rules once more, each with the tokens it adds.\<close>

definition SpaceT :: "char list \<Rightarrow> traced" where
  "SpaceT buffer =
     tokenT ruleSpace (orElseT (oneToken ruleWhitespace (Whitespace buffer))
                               (oneToken ruleEndOfLine (EndOfLine buffer)))"

definition SpacingT :: "char list \<Rightarrow> traced" where
  "SpacingT buffer = tokenT ruleSpacing (loopT (SpaceLoop buffer) (SpaceT buffer) buffer)"

definition WhitespaceLoopT :: "char list \<Rightarrow> traced" where
  "WhitespaceLoopT buffer =
     loopT (WhitespaceLoop buffer) (oneToken ruleWhitespace (Whitespace buffer)) buffer"

definition WhiteSpacingT :: "char list \<Rightarrow> traced" where
  "WhiteSpacingT buffer = tokenT ruleWhiteSpacing (WhitespaceLoopT buffer)"

definition MustWhiteSpacingT :: "char list \<Rightarrow> traced" where
  "MustWhiteSpacingT buffer =
     tokenT ruleMustWhiteSpacing
       (andThenT (oneToken ruleWhitespace (Whitespace buffer)) (WhitespaceLoopT buffer))"

definition EqualT :: "char list \<Rightarrow> traced" where
  "EqualT buffer =
     tokenT ruleEqual
       (andThenT (SpacingT buffer)
       (andThenT (plain (matchRune CHR ''='' buffer)) (SpacingT buffer)))"

definition IdentifierT :: "char list \<Rightarrow> traced" where
  "IdentifierT buffer = oneToken ruleIdentifier (Identifier buffer)"

definition StringValueT :: "char list \<Rightarrow> traced" where
  "StringValueT buffer = oneToken ruleStringValue (StringValue buffer)"

definition CSVItemT :: "char list \<Rightarrow> traced" where
  "CSVItemT buffer =
     andThenT (StringValueT buffer) (andThenT (WhiteSpacingT buffer)
       (andThenT (plain (matchRune CHR '','' buffer)) (WhiteSpacingT buffer)))"

definition CSVValueT :: "char list \<Rightarrow> traced" where
  "CSVValueT buffer =
     tokenT ruleCSVValue
       (andThenT (CSVItemT buffer)
       (andThenT (loopT (CSVLoop buffer) (CSVItemT buffer) buffer) (StringValueT buffer)))"

definition RefValueT :: "char list \<Rightarrow> traced" where
  "RefValueT buffer =
     tokenT ruleRefValue
       (andThenT (plain (matchRune CHR ''$'' buffer)) (tokenT rulePegText (IdentifierT buffer)))"

definition AliasValueT :: "char list \<Rightarrow> traced" where
  "AliasValueT buffer =
     tokenT ruleAliasValue
       (tokenT rulePegText
          (andThenT (plain (matchRune CHR ''@'' buffer)) (StringValueT buffer)))"

definition HoleValueT :: "char list \<Rightarrow> traced" where
  "HoleValueT buffer =
     tokenT ruleHoleValue
       (andThenT (plain (matchRune CHR ''{'' buffer)) (andThenT (WhiteSpacingT buffer)
       (andThenT (tokenT rulePegText (IdentifierT buffer)) (andThenT (WhiteSpacingT buffer)
       (plain (matchRune CHR ''}'' buffer))))))"

definition ValueSwitchT :: "char list \<Rightarrow> traced" where
  "ValueSwitchT buffer =
     switchRuneT
       [(CHR ''$'', andThenT (RefValueT buffer) (emitT ruleAction7)),
        (CHR ''@'', andThenT (AliasValueT buffer) (emitT ruleAction6)),
        (CHR ''{'', andThenT (HoleValueT buffer) (emitT ruleAction5))]
       (andThenT (tokenT rulePegText (StringValueT buffer)) (emitT ruleAction13))
       buffer"

definition ValueT :: "char list \<Rightarrow> traced" where
  "ValueT buffer =
     tokenT ruleValue
       (orElseT (andThenT (tokenT rulePegText (oneToken ruleCidrValue (CidrValue buffer)))
                          (emitT ruleAction8))
       (orElseT (andThenT (tokenT rulePegText (oneToken ruleIpValue (IpValue buffer)))
                          (emitT ruleAction9))
       (orElseT (andThenT (tokenT rulePegText (CSVValueT buffer)) (emitT ruleAction10))
       (orElseT (andThenT (tokenT rulePegText (oneToken ruleIntRangeValue (IntRangeValue buffer)))
                          (emitT ruleAction11))
       (orElseT (andThenT (tokenT rulePegText (oneToken ruleIntValue (IntValue buffer)))
                          (emitT ruleAction12))
                (ValueSwitchT buffer))))))"

definition ParamT :: "char list \<Rightarrow> traced" where
  "ParamT buffer =
     tokenT ruleParam
       (andThenT (tokenT rulePegText (IdentifierT buffer)) (andThenT (emitT ruleAction4)
       (andThenT (EqualT buffer) (andThenT (ValueT buffer) (WhiteSpacingT buffer)))))"

definition ParamsT :: "char list \<Rightarrow> traced" where
  "ParamsT buffer =
     tokenT ruleParams
       (andThenT (ParamT buffer) (loopT (ParamLoop buffer) (ParamT buffer) buffer))"

definition ExprT :: "char list \<Rightarrow> traced" where
  "ExprT buffer =
     tokenT ruleExpr
       (andThenT (tokenT rulePegText (tokenT ruleAction (plain (Action buffer))))
       (andThenT (emitT ruleAction1)
       (andThenT (MustWhiteSpacingT buffer)
       (andThenT (tokenT rulePegText (tokenT ruleEntity (plain (Entity buffer))))
       (andThenT (emitT ruleAction2)
       (andThenT (optionalT (andThenT (MustWhiteSpacingT buffer) (ParamsT buffer)))
                 (emitT ruleAction3)))))))"

definition DeclarationT :: "char list \<Rightarrow> traced" where
  "DeclarationT buffer =
     tokenT ruleDeclaration
       (andThenT (tokenT rulePegText (IdentifierT buffer))
       (andThenT (emitT ruleAction0)
       (andThenT (EqualT buffer) (ExprT buffer))))"

definition CommentRuneT :: "char list \<Rightarrow> traced" where
  "CommentRuneT buffer =
     andThenT (notAheadT (oneToken ruleEndOfLine (EndOfLine buffer))) (plain (matchDot buffer))"

definition CommentT :: "char list \<Rightarrow> traced" where
  "CommentT buffer =
     tokenT ruleComment
       (orElseT (andThenT (plain (matchRune CHR ''#'' buffer))
                          (loopT (CommentLoop buffer) (CommentRuneT buffer) buffer))
                (andThenT (plain (matchRune CHR ''/'' buffer))
                (andThenT (plain (matchRune CHR ''/'' buffer))
                (andThenT (loopT (CommentLoop buffer) (CommentRuneT buffer) buffer)
                          (emitT ruleAction14)))))"

definition StatementT :: "char list \<Rightarrow> traced" where
  "StatementT buffer =
     tokenT ruleStatement
       (andThenT (SpacingT buffer)
       (andThenT (orElseT (ExprT buffer) (orElseT (DeclarationT buffer) (CommentT buffer)))
       (andThenT (SpacingT buffer)
                 (loopT (EndOfLineLoop buffer) (oneToken ruleEndOfLine (EndOfLine buffer))
                    buffer))))"

definition ScriptT :: "char list \<Rightarrow> traced" where
  "ScriptT buffer =
     tokenT ruleScript
       (andThenT (SpacingT buffer)
       (andThenT (StatementT buffer)
       (andThenT (loopT (StatementLoop buffer) (StatementT buffer) buffer)
                 (tokenT ruleEndOfFile (notAheadT (plain (matchDot buffer)))))))"

text \<open>
  All the tokens that the parser adds on a text, from \<^verbatim>\<open>reset\<close> to the end of the rule
  \<^verbatim>\<open>Script\<close>, in the order of the calls of \<^verbatim>\<open>add\<close>.
\<close>

definition added :: "char list \<Rightarrow> token32 list" where
  "added buffer = snd (ScriptT buffer) reset"

lemma maxTok_add:
  "maxTok (add r bgn st) = better (maxTok st) \<lparr>pegRule = r, tbegin = bgn, tend = position st\<rparr>"
  by (simp add: add_def better_def)

lemma position_add: "position (add r bgn st) = position st"
  by (simp add: add_def)

definition silent :: "rule \<Rightarrow> bool" where
  "silent p = (\<forall>st. case p st of Matched s \<Rightarrow> maxTok s = maxTok st | Failed m \<Rightarrow> m = maxTok st)"

lemma silentD_Matched: "silent p \<Longrightarrow> p st = Matched s \<Longrightarrow> maxTok s = maxTok st"
  unfolding silent_def by (drule spec [of _ st]) simp

lemma silentD_Failed: "silent p \<Longrightarrow> p st = Failed m \<Longrightarrow> m = maxTok st"
  unfolding silent_def by (drule spec [of _ st]) simp

lemma silentI:
  assumes "\<And>st s. p st = Matched s \<Longrightarrow> maxTok s = maxTok st"
    and "\<And>st m. p st = Failed m \<Longrightarrow> m = maxTok st"
  shows "silent p"
  unfolding silent_def
proof
  fix st
  show "case p st of Matched s \<Rightarrow> maxTok s = maxTok st | Failed m \<Rightarrow> m = maxTok st"
    using assms [of st] by (cases "p st") simp_all
qed

named_theorems silent_intros

lemma silent_matchClass [silent_intros]: "silent (matchClass P b)"
  by (rule silentI) (auto simp: matchClass_def split: option.splits if_splits)

lemma silent_matchRune [silent_intros]: "silent (matchRune c b)"
  unfolding matchRune_def by (rule silent_matchClass)

lemma silent_matchDot [silent_intros]: "silent (matchDot b)"
  unfolding matchDot_def by (rule silent_matchClass)

lemma silent_andThen [silent_intros]:
  assumes "silent p" and "silent q"
  shows "silent (andThen p q)"
proof (rule silentI)
  fix st s
  assume "andThen p q st = Matched s"
  then obtain s1 where 1: "p st = Matched s1" and 2: "q s1 = Matched s"
    by (auto simp: andThen_def split: outcome.splits)
  from silentD_Matched [OF assms(1) 1] silentD_Matched [OF assms(2) 2]
  show "maxTok s = maxTok st" by simp
next
  fix st m
  assume f: "andThen p q st = Failed m"
  show "m = maxTok st"
  proof (cases "p st")
    case (Matched s1)
    with f have "q s1 = Failed m" by (simp add: andThen_def)
    from silentD_Failed [OF assms(2) this] silentD_Matched [OF assms(1) Matched]
    show ?thesis by simp
  next
    case (Failed m1)
    with f have "m1 = m" by (simp add: andThen_def)
    with silentD_Failed [OF assms(1) Failed] show ?thesis by simp
  qed
qed

lemma restore_same: "m = maxTok st \<Longrightarrow> st\<lparr>maxTok := m\<rparr> = st"
  by simp

lemma silent_orElse [silent_intros]:
  assumes "silent p" and "silent q"
  shows "silent (orElse p q)"
proof (rule silentI)
  fix st s
  assume m: "orElse p q st = Matched s"
  show "maxTok s = maxTok st"
  proof (cases "p st")
    case (Matched s1)
    with m have "s1 = s" by (simp add: orElse_def)
    with silentD_Matched [OF assms(1) Matched] show ?thesis by simp
  next
    case (Failed m1)
    note r = restore_same [OF silentD_Failed [OF assms(1) Failed]]
    from m Failed have "q st = Matched s" by (simp add: orElse_def r)
    from silentD_Matched [OF assms(2) this] show ?thesis .
  qed
next
  fix st m
  assume f: "orElse p q st = Failed m"
  show "m = maxTok st"
  proof (cases "p st")
    case (Matched s1)
    with f show ?thesis by (simp add: orElse_def)
  next
    case (Failed m1)
    note r = restore_same [OF silentD_Failed [OF assms(1) Failed]]
    from f Failed have "q st = Failed m" by (simp add: orElse_def r)
    from silentD_Failed [OF assms(2) this] show ?thesis .
  qed
qed

lemma silent_matchString [silent_intros]: "silent (matchString lit b)"
proof (induction lit)
  case Nil
  show ?case by (rule silentI) simp_all
next
  case (Cons c cs)
  have "matchString (c # cs) b = andThen (matchRune c b) (matchString cs b)"
    by (rule ext) (simp add: andThen_def)
  then show ?case using silent_andThen [OF silent_matchRune Cons] by simp
qed

lemma silent_switchRune:
  assumes "list_all (\<lambda>cp. silent (snd cp)) cases" and "silent dflt"
  shows "silent (switchRune cases dflt b)"
  using assms(1)
proof (induction cases)
  case Nil
  have "switchRune [] dflt b = dflt" by (rule ext) simp
  with assms(2) show ?case by simp
next
  case (Cons cp cases)
  obtain c p where cp: "cp = (c, p)" by (cases cp)
  from Cons.prems have p: "silent p" and r: "silent (switchRune cases dflt b)"
    using Cons.IH by (simp_all add: cp)
  show ?case unfolding cp
  proof (rule silentI)
    fix st s
    assume "switchRune ((c, p) # cases) dflt b st = Matched s"
    then show "maxTok s = maxTok st"
      using silentD_Matched [OF p, of st s] silentD_Matched [OF r, of st s]
      by (simp split: if_splits)
  next
    fix st m
    assume "switchRune ((c, p) # cases) dflt b st = Failed m"
    then show "m = maxTok st"
      using silentD_Failed [OF p, of st m] silentD_Failed [OF r, of st m]
      by (simp split: if_splits)
  qed
qed

lemma silent_loop:
  assumes unfold: "\<And>st. L st = (case B st of Matched s \<Rightarrow> L s | Failed m \<Rightarrow> st\<lparr>maxTok := m\<rparr>)"
    and c: "consuming n B"
    and B: "silent B"
  shows "silent (\<lambda>st. Matched (L st))"
proof -
  have "maxTok (L st) = maxTok st" for st
  proof (induction "n - position st" arbitrary: st rule: less_induct)
    case less
    show ?case
    proof (cases "B st")
      case (Matched s)
      from loop_measure [OF c Matched] have "maxTok (L s) = maxTok s" by (rule less)
      with silentD_Matched [OF B Matched] unfold [of st] Matched show ?thesis by simp
    next
      case (Failed m)
      with silentD_Failed [OF B Failed] unfold [of st] show ?thesis by simp
    qed
  qed
  then show ?thesis by (intro silentI) auto
qed

lemma silent_classPlus [silent_intros]: "silent (classPlus P b)"
  unfolding classPlus_def
  by (intro silent_andThen silent_matchClass
        silent_loop [OF classLoop.simps consuming_matchClass])

lemma silent_digits [silent_intros]: "silent (digits b)"
  unfolding digits_def by (rule silent_classPlus)

lemma silent_Action: "silent (Action b)"
  unfolding Action_def
  by (intro silent_orElse silent_matchString silent_switchRune) (simp_all add: silent_matchString)

lemma silent_Entity: "silent (Entity b)"
  unfolding Entity_def
  by (intro silent_orElse silent_matchString silent_switchRune) (simp_all add: silent_matchString)

definition logged :: "traced \<Rightarrow> bool" where
  "logged P = (\<forall>st. case fst P st of
                       Matched s \<Rightarrow> maxTok s = foldl better (maxTok st) (snd P st)
                     | Failed m \<Rightarrow> m = foldl better (maxTok st) (snd P st))"

lemma loggedD_Matched:
  "logged P \<Longrightarrow> fst P st = Matched s \<Longrightarrow> maxTok s = foldl better (maxTok st) (snd P st)"
  unfolding logged_def by (drule spec [of _ st]) simp

lemma loggedD_Failed:
  "logged P \<Longrightarrow> fst P st = Failed m \<Longrightarrow> m = foldl better (maxTok st) (snd P st)"
  unfolding logged_def by (drule spec [of _ st]) simp

lemma loggedI:
  assumes "\<And>st s. fst P st = Matched s \<Longrightarrow> maxTok s = foldl better (maxTok st) (snd P st)"
    and "\<And>st m. fst P st = Failed m \<Longrightarrow> m = foldl better (maxTok st) (snd P st)"
  shows "logged P"
  unfolding logged_def
proof
  fix st
  show "case fst P st of
          Matched s \<Rightarrow> maxTok s = foldl better (maxTok st) (snd P st)
        | Failed m \<Rightarrow> m = foldl better (maxTok st) (snd P st)"
    using assms [of st] by (cases "fst P st") simp_all
qed

named_theorems logged_intros

lemma logged_plain [logged_intros]: "silent p \<Longrightarrow> logged (plain p)"
  by (rule loggedI) (auto simp: plain_def dest: silentD_Matched silentD_Failed)

lemma logged_oneToken:
  assumes "silent p"
  shows "logged (oneToken r (token r p))"
proof (rule loggedI)
  fix st s
  assume "fst (oneToken r (token r p)) st = Matched s"
  then have m: "token r p st = Matched s" by (simp add: oneToken_def)
  then obtain s1 where 1: "p st = Matched s1" and 2: "s = add r (position st) s1"
    by (auto simp: token_def split: outcome.splits)
  from silentD_Matched [OF assms 1] m
  show "maxTok s = foldl better (maxTok st) (snd (oneToken r (token r p)) st)"
    by (simp add: oneToken_def 2 maxTok_add position_add)
next
  fix st m
  assume "fst (oneToken r (token r p)) st = Failed m"
  then have f: "token r p st = Failed m" by (simp add: oneToken_def)
  then have "p st = Failed m" by (auto simp: token_def split: outcome.splits)
  from silentD_Failed [OF assms this] f
  show "m = foldl better (maxTok st) (snd (oneToken r (token r p)) st)"
    by (simp add: oneToken_def)
qed

lemma logged_andThenT [logged_intros]:
  assumes P: "logged P" and Q: "logged Q"
  shows "logged (andThenT P Q)"
proof (rule loggedI)
  fix st s
  assume "fst (andThenT P Q) st = Matched s"
  then obtain s1 where 1: "fst P st = Matched s1" and 2: "fst Q s1 = Matched s"
    by (auto simp: andThenT_def andThen_def split: outcome.splits)
  from loggedD_Matched [OF P 1] loggedD_Matched [OF Q 2]
  show "maxTok s = foldl better (maxTok st) (snd (andThenT P Q) st)"
    by (simp add: andThenT_def 1)
next
  fix st m
  assume f: "fst (andThenT P Q) st = Failed m"
  show "m = foldl better (maxTok st) (snd (andThenT P Q) st)"
  proof (cases "fst P st")
    case (Matched s1)
    with f have "fst Q s1 = Failed m" by (simp add: andThenT_def andThen_def)
    from loggedD_Failed [OF Q this] loggedD_Matched [OF P Matched]
    show ?thesis by (simp add: andThenT_def Matched)
  next
    case (Failed m1)
    with f have "m1 = m" by (simp add: andThenT_def andThen_def)
    with loggedD_Failed [OF P Failed] show ?thesis by (simp add: andThenT_def Failed)
  qed
qed

lemma logged_orElseT [logged_intros]:
  assumes P: "logged P" and Q: "logged Q"
  shows "logged (orElseT P Q)"
proof (rule loggedI)
  fix st s
  assume m: "fst (orElseT P Q) st = Matched s"
  show "maxTok s = foldl better (maxTok st) (snd (orElseT P Q) st)"
  proof (cases "fst P st")
    case (Matched s1)
    with m have "s1 = s" by (simp add: orElseT_def orElse_def)
    with loggedD_Matched [OF P Matched] show ?thesis by (simp add: orElseT_def Matched)
  next
    case (Failed m1)
    with m have "fst Q (st\<lparr>maxTok := m1\<rparr>) = Matched s" by (simp add: orElseT_def orElse_def)
    from loggedD_Matched [OF Q this] loggedD_Failed [OF P Failed]
    show ?thesis by (simp add: orElseT_def Failed)
  qed
next
  fix st m
  assume f: "fst (orElseT P Q) st = Failed m"
  show "m = foldl better (maxTok st) (snd (orElseT P Q) st)"
  proof (cases "fst P st")
    case (Matched s1)
    with f show ?thesis by (simp add: orElseT_def orElse_def)
  next
    case (Failed m1)
    with f have "fst Q (st\<lparr>maxTok := m1\<rparr>) = Failed m" by (simp add: orElseT_def orElse_def)
    from loggedD_Failed [OF Q this] loggedD_Failed [OF P Failed]
    show ?thesis by (simp add: orElseT_def Failed)
  qed
qed

lemma logged_tokenT [logged_intros]:
  assumes P: "logged P"
  shows "logged (tokenT r P)"
proof (rule loggedI)
  fix st s
  assume "fst (tokenT r P) st = Matched s"
  then obtain s1 where 1: "fst P st = Matched s1" and 2: "s = add r (position st) s1"
    by (auto simp: tokenT_def token_def split: outcome.splits)
  from loggedD_Matched [OF P 1]
  show "maxTok s = foldl better (maxTok st) (snd (tokenT r P) st)"
    by (simp add: tokenT_def 1 2 maxTok_add)
next
  fix st m
  assume "fst (tokenT r P) st = Failed m"
  then have f: "fst P st = Failed m" by (auto simp: tokenT_def token_def split: outcome.splits)
  from loggedD_Failed [OF P f]
  show "m = foldl better (maxTok st) (snd (tokenT r P) st)"
    by (simp add: tokenT_def f)
qed

lemma logged_emitT [logged_intros]: "logged (emitT r)"
  by (rule loggedI) (auto simp: emitT_def emit_def maxTok_add)

lemma logged_notAheadT [logged_intros]:
  assumes P: "logged P"
  shows "logged (notAheadT P)"
proof (rule loggedI)
  fix st s
  assume "fst (notAheadT P) st = Matched s"
  then obtain m where 1: "fst P st = Failed m" and 2: "s = st\<lparr>maxTok := m\<rparr>"
    by (auto simp: notAheadT_def notAhead_def split: outcome.splits)
  from loggedD_Failed [OF P 1]
  show "maxTok s = foldl better (maxTok st) (snd (notAheadT P) st)"
    by (simp add: notAheadT_def 2)
next
  fix st m
  assume "fst (notAheadT P) st = Failed m"
  then obtain s where 1: "fst P st = Matched s" and 2: "m = maxTok s"
    by (auto simp: notAheadT_def notAhead_def split: outcome.splits)
  from loggedD_Matched [OF P 1]
  show "m = foldl better (maxTok st) (snd (notAheadT P) st)"
    by (simp add: notAheadT_def 2)
qed

lemma logged_optionalT [logged_intros]:
  assumes P: "logged P"
  shows "logged (optionalT P)"
proof (rule loggedI)
  fix st s
  assume m: "fst (optionalT P) st = Matched s"
  show "maxTok s = foldl better (maxTok st) (snd (optionalT P) st)"
  proof (cases "fst P st")
    case (Matched s1)
    with m have "s1 = s" by (simp add: optionalT_def optional_def)
    with loggedD_Matched [OF P Matched] show ?thesis by (simp add: optionalT_def)
  next
    case (Failed m1)
    with m have "s = st\<lparr>maxTok := m1\<rparr>" by (simp add: optionalT_def optional_def)
    with loggedD_Failed [OF P Failed] show ?thesis by (simp add: optionalT_def)
  qed
next
  fix st m
  assume "fst (optionalT P) st = Failed m"
  then show "m = foldl better (maxTok st) (snd (optionalT P) st)"
    by (simp add: optionalT_def optional_def split: outcome.splits)
qed

lemma logged_switchRuneT:
  assumes "list_all (\<lambda>cp. logged (snd cp)) cases" and "logged dflt"
  shows "logged (switchRuneT cases dflt b)"
  using assms(1)
proof (induction cases)
  case Nil
  show ?case
    by (rule loggedI)
       (auto simp: switchRuneT_def dest: loggedD_Matched [OF assms(2)] loggedD_Failed [OF assms(2)])
next
  case (Cons cp cases)
  obtain c P where cp: "cp = (c, P)" by (cases cp)
  from Cons.prems have P: "logged P" and r: "logged (switchRuneT cases dflt b)"
    using Cons.IH by (simp_all add: cp)
  show ?case unfolding cp
  proof (rule loggedI)
    fix st s
    assume "fst (switchRuneT ((c, P) # cases) dflt b) st = Matched s"
    then show "maxTok s = foldl better (maxTok st) (snd (switchRuneT ((c, P) # cases) dflt b) st)"
      using loggedD_Matched [OF P, of st s] loggedD_Matched [OF r, of st s]
      by (simp add: switchRuneT_def split: if_splits)
  next
    fix st m
    assume "fst (switchRuneT ((c, P) # cases) dflt b) st = Failed m"
    then show "m = foldl better (maxTok st) (snd (switchRuneT ((c, P) # cases) dflt b) st)"
      using loggedD_Failed [OF P, of st m] loggedD_Failed [OF r, of st m]
      by (simp add: switchRuneT_def split: if_splits)
  qed
qed

lemma logged_loopT:
  assumes unfold: "\<And>st. L st = (case fst B st of Matched s \<Rightarrow> L s | Failed m \<Rightarrow> st\<lparr>maxTok := m\<rparr>)"
    and c: "consuming (length b) (fst B)"
    and B: "logged B"
  shows "logged (loopT L B b)"
proof -
  have "length b - position st < n \<Longrightarrow> maxTok (L st) = foldl better (maxTok st) (loopAdded B n st)"
    for n st
  proof (induction n arbitrary: st)
    case 0
    then show ?case by simp
  next
    case (Suc n)
    show ?case
    proof (cases "fst B st")
      case (Matched s)
      from loop_measure [OF c Matched] Suc.prems have "length b - position s < n" by arith
      from Suc.IH [OF this] loggedD_Matched [OF B Matched] unfold [of st] Matched
      show ?thesis by simp
    next
      case (Failed m)
      with loggedD_Failed [OF B Failed] unfold [of st] show ?thesis by simp
    qed
  qed
  note k = this
  have "maxTok (L st) = foldl better (maxTok st) (snd (loopT L B b) st)" for st
    unfolding loopT_def snd_conv by (rule k) (rule lessI)
  then show ?thesis by (intro loggedI) (auto simp: loopT_def)
qed

named_theorems traced_fst

lemma fst_plain [traced_fst]: "fst (plain p) = p"
  by (simp add: plain_def)

lemma fst_oneToken [traced_fst]: "fst (oneToken r p) = p"
  by (simp add: oneToken_def)

lemma fst_andThenT [traced_fst]: "fst (andThenT P Q) = andThen (fst P) (fst Q)"
  by (simp add: andThenT_def)

lemma fst_orElseT [traced_fst]: "fst (orElseT P Q) = orElse (fst P) (fst Q)"
  by (simp add: orElseT_def)

lemma fst_tokenT [traced_fst]: "fst (tokenT r P) = token r (fst P)"
  by (simp add: tokenT_def)

lemma fst_emitT [traced_fst]: "fst (emitT r) = emit r"
  by (simp add: emitT_def)

lemma fst_notAheadT [traced_fst]: "fst (notAheadT P) = notAhead (fst P)"
  by (simp add: notAheadT_def)

lemma fst_optionalT [traced_fst]: "fst (optionalT P) = optional (fst P)"
  by (simp add: optionalT_def)

lemma fst_switchRuneT [traced_fst]:
  "fst (switchRuneT cases dflt b) = switchRune (map (\<lambda>(c, P). (c, fst P)) cases) (fst dflt) b"
  by (simp add: switchRuneT_def)

lemma fst_loopT [traced_fst]: "fst (loopT L B b) = (\<lambda>st. Matched (L st))"
  by (simp add: loopT_def)

lemma Space_fst [traced_fst]: "fst (SpaceT b) = Space b"
  by (simp add: SpaceT_def Space_def traced_fst)

lemma Spacing_fst [traced_fst]: "fst (SpacingT b) = Spacing b"
  by (simp add: SpacingT_def Spacing_def traced_fst)

lemma WhitespaceLoop_fst [traced_fst]:
  "fst (WhitespaceLoopT b) = (\<lambda>st. Matched (WhitespaceLoop b st))"
  by (simp add: WhitespaceLoopT_def traced_fst)

lemma WhiteSpacing_fst [traced_fst]: "fst (WhiteSpacingT b) = WhiteSpacing b"
  by (simp add: WhiteSpacingT_def WhiteSpacing_def traced_fst)

lemma MustWhiteSpacing_fst [traced_fst]: "fst (MustWhiteSpacingT b) = MustWhiteSpacing b"
  by (simp add: MustWhiteSpacingT_def MustWhiteSpacing_def traced_fst)

lemma Equal_fst [traced_fst]: "fst (EqualT b) = Equal b"
  by (simp add: EqualT_def Equal_def traced_fst)

lemma Identifier_fst [traced_fst]: "fst (IdentifierT b) = Identifier b"
  by (simp add: IdentifierT_def traced_fst)

lemma StringValue_fst [traced_fst]: "fst (StringValueT b) = StringValue b"
  by (simp add: StringValueT_def traced_fst)

lemma CSVItem_fst [traced_fst]: "fst (CSVItemT b) = CSVItem b"
  by (simp add: CSVItemT_def CSVItem_def traced_fst)

lemma CSVValue_fst [traced_fst]: "fst (CSVValueT b) = CSVValue b"
  by (simp add: CSVValueT_def CSVValue_def traced_fst)

lemma RefValue_fst [traced_fst]: "fst (RefValueT b) = RefValue b"
  by (simp add: RefValueT_def RefValue_def traced_fst)

lemma AliasValue_fst [traced_fst]: "fst (AliasValueT b) = AliasValue b"
  by (simp add: AliasValueT_def AliasValue_def traced_fst)

lemma HoleValue_fst [traced_fst]: "fst (HoleValueT b) = HoleValue b"
  by (simp add: HoleValueT_def HoleValue_def traced_fst)

lemma ValueSwitch_fst [traced_fst]: "fst (ValueSwitchT b) = ValueSwitch b"
  by (simp add: ValueSwitchT_def ValueSwitch_def traced_fst)

lemma Value_fst [traced_fst]: "fst (ValueT b) = Value b"
  by (simp add: ValueT_def Value_def ValueCidr_def ValueIp_def ValueCSV_def ValueIntRange_def
        ValueInt_def traced_fst)

lemma Param_fst [traced_fst]: "fst (ParamT b) = Param b"
  by (simp add: ParamT_def Param_def traced_fst)

lemma Params_fst [traced_fst]: "fst (ParamsT b) = Params b"
  by (simp add: ParamsT_def Params_def traced_fst)

lemma Expr_fst [traced_fst]: "fst (ExprT b) = Expr b"
  by (simp add: ExprT_def Expr_def traced_fst)

lemma Declaration_fst [traced_fst]: "fst (DeclarationT b) = Declaration b"
  by (simp add: DeclarationT_def Declaration_def traced_fst)

lemma CommentRune_fst [traced_fst]: "fst (CommentRuneT b) = CommentRune b"
  by (simp add: CommentRuneT_def CommentRune_def traced_fst)

lemma Comment_fst [traced_fst]: "fst (CommentT b) = Comment b"
  by (simp add: CommentT_def Comment_def traced_fst)

lemma Statement_fst [traced_fst]: "fst (StatementT b) = Statement b"
  by (simp add: StatementT_def Statement_def traced_fst)

lemma Script_fst: "fst (ScriptT b) = Script b"
  by (simp add: ScriptT_def Script_def EndOfFile_def traced_fst)

lemma Whitespace_logged [logged_intros]: "logged (oneToken ruleWhitespace (Whitespace b))"
  unfolding Whitespace_def by (intro logged_oneToken silent_intros)

lemma EndOfLine_logged [logged_intros]: "logged (oneToken ruleEndOfLine (EndOfLine b))"
  unfolding EndOfLine_def by (intro logged_oneToken silent_intros)

lemma Identifier_logged [logged_intros]: "logged (IdentifierT b)"
  unfolding IdentifierT_def Identifier_def by (intro logged_oneToken silent_intros)

lemma StringValue_logged [logged_intros]: "logged (StringValueT b)"
  unfolding StringValueT_def StringValue_def by (intro logged_oneToken silent_intros)

lemma CidrValue_logged [logged_intros]: "logged (oneToken ruleCidrValue (CidrValue b))"
  unfolding CidrValue_def by (intro logged_oneToken silent_intros)

lemma IpValue_logged [logged_intros]: "logged (oneToken ruleIpValue (IpValue b))"
  unfolding IpValue_def by (intro logged_oneToken silent_intros)

lemma IntRangeValue_logged [logged_intros]:
  "logged (oneToken ruleIntRangeValue (IntRangeValue b))"
  unfolding IntRangeValue_def by (intro logged_oneToken silent_intros)

lemma IntValue_logged [logged_intros]: "logged (oneToken ruleIntValue (IntValue b))"
  unfolding IntValue_def by (intro logged_oneToken silent_intros)

lemma Space_logged [logged_intros]: "logged (SpaceT b)"
  unfolding SpaceT_def by (intro logged_intros)

lemma SpaceLoop_logged [logged_intros]: "logged (loopT (SpaceLoop b) (SpaceT b) b)"
  by (rule logged_loopT) (simp_all add: traced_fst SpaceLoop.simps consuming_Space Space_logged)

lemma Spacing_logged [logged_intros]: "logged (SpacingT b)"
  unfolding SpacingT_def by (intro logged_intros)

lemma WhitespaceLoop_logged [logged_intros]: "logged (WhitespaceLoopT b)"
  unfolding WhitespaceLoopT_def
  by (rule logged_loopT)
     (simp_all add: traced_fst WhitespaceLoop.simps consuming_Whitespace Whitespace_logged)

lemma WhiteSpacing_logged [logged_intros]: "logged (WhiteSpacingT b)"
  unfolding WhiteSpacingT_def by (intro logged_intros)

lemma MustWhiteSpacing_logged [logged_intros]: "logged (MustWhiteSpacingT b)"
  unfolding MustWhiteSpacingT_def by (intro logged_intros)

lemma Equal_logged [logged_intros]: "logged (EqualT b)"
  unfolding EqualT_def by (intro logged_intros silent_intros)

lemma CSVItem_logged [logged_intros]: "logged (CSVItemT b)"
  unfolding CSVItemT_def by (intro logged_intros silent_intros)

lemma CSVLoop_logged [logged_intros]: "logged (loopT (CSVLoop b) (CSVItemT b) b)"
  by (rule logged_loopT) (simp_all add: traced_fst CSVLoop.simps consuming_CSVItem CSVItem_logged)

lemma CSVValue_logged [logged_intros]: "logged (CSVValueT b)"
  unfolding CSVValueT_def by (intro logged_intros)

lemma RefValue_logged [logged_intros]: "logged (RefValueT b)"
  unfolding RefValueT_def by (intro logged_intros silent_intros)

lemma AliasValue_logged [logged_intros]: "logged (AliasValueT b)"
  unfolding AliasValueT_def by (intro logged_intros silent_intros)

lemma HoleValue_logged [logged_intros]: "logged (HoleValueT b)"
  unfolding HoleValueT_def by (intro logged_intros silent_intros)

lemma ValueSwitch_logged [logged_intros]: "logged (ValueSwitchT b)"
  unfolding ValueSwitchT_def
  apply (rule logged_switchRuneT)
   apply simp
   apply (intro conjI logged_intros)
  apply (intro logged_intros)
  done

lemma Value_logged [logged_intros]: "logged (ValueT b)"
  unfolding ValueT_def by (intro logged_intros)

lemma Param_logged [logged_intros]: "logged (ParamT b)"
  unfolding ParamT_def by (intro logged_intros)

lemma ParamLoop_logged [logged_intros]: "logged (loopT (ParamLoop b) (ParamT b) b)"
  by (rule logged_loopT) (simp_all add: traced_fst ParamLoop.simps consuming_Param Param_logged)

lemma Params_logged [logged_intros]: "logged (ParamsT b)"
  unfolding ParamsT_def by (intro logged_intros)

lemma Expr_logged [logged_intros]: "logged (ExprT b)"
  unfolding ExprT_def by (intro logged_intros silent_Action silent_Entity)

lemma Declaration_logged [logged_intros]: "logged (DeclarationT b)"
  unfolding DeclarationT_def by (intro logged_intros)

lemma CommentRune_logged [logged_intros]: "logged (CommentRuneT b)"
  unfolding CommentRuneT_def by (intro logged_intros silent_intros)

lemma CommentLoop_logged [logged_intros]: "logged (loopT (CommentLoop b) (CommentRuneT b) b)"
  by (rule logged_loopT)
     (simp_all add: traced_fst CommentLoop.simps consuming_CommentRune CommentRune_logged)

lemma Comment_logged [logged_intros]: "logged (CommentT b)"
  unfolding CommentT_def by (intro logged_intros silent_intros)

lemma EndOfLineLoop_logged [logged_intros]:
  "logged (loopT (EndOfLineLoop b) (oneToken ruleEndOfLine (EndOfLine b)) b)"
  by (rule logged_loopT)
     (simp_all add: traced_fst EndOfLineLoop.simps consuming_EndOfLine EndOfLine_logged)

lemma Statement_logged [logged_intros]: "logged (StatementT b)"
  unfolding StatementT_def by (intro logged_intros)

lemma StatementLoop_logged [logged_intros]:
  "logged (loopT (StatementLoop b) (StatementT b) b)"
  by (rule logged_loopT)
     (simp_all add: traced_fst StatementLoop.simps consuming_Statement Statement_logged)

lemma Script_logged: "logged (ScriptT b)"
  unfolding ScriptT_def by (intro logged_intros silent_intros)

lemma Script_max:
  "Script b reset = Failed m \<Longrightarrow> m = foldl better zeroToken (added b)"
  using loggedD_Failed [OF Script_logged, of b reset m]
  by (simp add: Script_fst added_def reset_def zeroToken_def)

lemma foldl_better_upper:
  "tend m \<le> tend (foldl better m ts)
   \<and> (\<forall>t\<in>set ts. tbegin t \<noteq> tend t \<longrightarrow> tend t \<le> tend (foldl better m ts))"
proof (induction ts arbitrary: m)
  case Nil
  show ?case by simp
next
  case (Cons t ts)
  from Cons [of "better m t"]
  have 1: "tend (better m t) \<le> tend (foldl better m (t # ts))"
    and 2: "\<forall>u\<in>set ts. tbegin u \<noteq> tend u \<longrightarrow> tend u \<le> tend (foldl better m (t # ts))"
    by simp_all
  have 3: "tend m \<le> tend (better m t)" by (simp add: better_def)
  have 4: "tbegin t \<noteq> tend t \<longrightarrow> tend t \<le> tend (better m t)" by (simp add: better_def)
  from 1 2 3 4 show ?case by auto
qed

lemma better_cases:
  "better m t = m \<or> (better m t = t \<and> tbegin t \<noteq> tend t \<and> tend m < tend t)"
  by (simp add: better_def)

lemma foldl_better_first:
  "foldl better m ts \<noteq> m \<Longrightarrow>
     \<exists>xs ys. ts = xs @ foldl better m ts # ys
       \<and> tbegin (foldl better m ts) \<noteq> tend (foldl better m ts)
       \<and> tend m < tend (foldl better m ts)
       \<and> (\<forall>t\<in>set xs. tbegin t \<noteq> tend t \<longrightarrow> tend t < tend (foldl better m ts))"
proof (induction ts arbitrary: m)
  case Nil
  then show ?case by simp
next
  case (Cons t ts)
  define r where "r = foldl better m (t # ts)"
  have r: "r = foldl better (better m t) ts" by (simp add: r_def)
  from Cons.prems have p: "r \<noteq> m" by (simp add: r_def)
  have "\<exists>xs ys. t # ts = xs @ r # ys \<and> tbegin r \<noteq> tend r \<and> tend m < tend r
          \<and> (\<forall>u\<in>set xs. tbegin u \<noteq> tend u \<longrightarrow> tend u < tend r)"
  proof (cases "r = better m t")
    case True
    with p better_cases [of m t]
    have t: "r = t" and n: "tbegin t \<noteq> tend t" and l: "tend m < tend t"
      by auto
    from t n l show ?thesis by (intro exI [of _ "[]"] exI [of _ ts]) simp
  next
    case False
    with r have "foldl better (better m t) ts \<noteq> better m t" by simp
    from Cons.IH [OF this] obtain xs ys where
      1: "ts = xs @ r # ys" and 2: "tbegin r \<noteq> tend r" and 3: "tend (better m t) < tend r"
      and 4: "\<forall>u\<in>set xs. tbegin u \<noteq> tend u \<longrightarrow> tend u < tend r"
      unfolding r [symmetric] by blast
    have 5: "tend m \<le> tend (better m t)" by (simp add: better_def)
    have 6: "tbegin t \<noteq> tend t \<longrightarrow> tend t \<le> tend (better m t)" by (simp add: better_def)
    from 1 have a: "t # ts = (t # xs) @ r # ys" by simp
    from 3 5 have b: "tend m < tend r" by arith
    from 3 4 6 have c: "\<forall>u\<in>set (t # xs). tbegin u \<noteq> tend u \<longrightarrow> tend u < tend r"
      by auto
    from a b c 2 show ?thesis by blast
  qed
  then show ?case unfolding r_def .
qed

subsection \<open>A value token on its own\<close>

definition parseValue :: "char list \<Rightarrow> (pegRule list \<times> call list) option" where
  "parseValue tok =
     (case Value tok reset of
        Matched s \<Rightarrow>
          if position s = length tok
          then Some (map pegRule (tree s), Execute tok (tree s)) else None
      | Failed m \<Rightarrow> None)"

definition stringValuesOf :: "char list \<Rightarrow> string list" where
  "stringValuesOf tok =
     (case Value tok reset of
        Matched s \<Rightarrow> map (\<lambda>t. slice tok (tbegin t) (tend t))
                       (filter (\<lambda>t. pegRule t = ruleStringValue) (tree s))
      | Failed m \<Rightarrow> [])"

section \<open>Properties of the dry-run drivers\<close>

lemma HasSuffix_notFound_example: "HasSuffix ''InvalidVpcID.NotFound'' notFound"
  by (simp add: HasSuffix_def notFound_def)

lemma fullDryRun_synthesized:
  "(fst (fullDryRun d f params sf api) = (Some (f (entity d)), None))
     = (setFields params sf (steps d) = None
        \<and> (\<exists>code msg. api (apiCall d) = Some (AwsErr code msg)
              \<and> (code = ''DryRunOperation'' \<or> HasSuffix code ''NotFound'')))"
  by (auto simp: fullDryRun_def dryRunOperation_def notFound_def Let_def
           split: option.splits goerror.splits)

lemma fullDryRun_setting_failed:
  "setFields params sf (steps d) = Some e \<longrightarrow> fullDryRun d f params sf api = ((None, Some e), [])"
  by (simp add: fullDryRun_def)

lemma fullDryRun_refused:
  "setFields params sf (steps d) = None
   \<and> \<not> (\<exists>code msg. api (apiCall d) = Some (AwsErr code msg)
          \<and> (code = ''DryRunOperation'' \<or> HasSuffix code ''NotFound'')) \<longrightarrow>
   fullDryRun d f params sf api
     = ((None, api (apiCall d)),
        [Errorf (''dry run: '' @ verb d @ '' '' @ entity d @ '' error: %s'') (api (apiCall d))])"
  by (auto simp: fullDryRun_def dryRunOperation_def notFound_def Let_def
           split: option.splits goerror.splits)

lemma fullDryRun_accepted:
  "setFields params sf (steps d) = None
   \<and> (\<exists>code msg. api (apiCall d) = Some (AwsErr code msg)
          \<and> (code = ''DryRunOperation'' \<or> HasSuffix code ''NotFound'')) \<longrightarrow>
   fullDryRun d f params sf api
     = ((Some (f (entity d)), None),
        [Verbose (''full dry run: '' @ verb d @ '' '' @ entity d @ '' ok'')])"
  by (auto simp: fullDryRun_def dryRunOperation_def notFound_def Let_def
           split: option.splits goerror.splits)

lemma Create_Vpc_DryRun_template:
  "Create_Vpc_DryRun f (sf (params ''cidr'') ''CidrBlock'' ''awsstr'') (api ''CreateVpc'')
     = fullDryRun (hd fullDryRuns) f params sf api"
  by (simp add: Create_Vpc_DryRun_def fullDryRun_def fullDryRuns_def Let_def
           split: option.splits goerror.splits)

lemma Create_Vpc_DryRun_synthesized:
  "(fst (Create_Vpc_DryRun f se r) = (Some (f ''vpc''), None))
     = (se = None \<and> (\<exists>code msg. r = Some (AwsErr code msg)
                        \<and> (code = ''DryRunOperation'' \<or> HasSuffix code ''NotFound'')))"
  by (auto simp: Create_Vpc_DryRun_def dryRunOperation_def notFound_def
           split: option.splits goerror.splits)

lemma Create_Instance_DryRun_synthesized:
  "(fst (Create_Instance_DryRun f params sf api tags) = (Some (f ''instance''), None))
     = (setFields params sf instanceSteps = None
        \<and> (\<exists>code msg. api ''RunInstances'' = Some (AwsErr code msg)
              \<and> (code = ''DryRunOperation'' \<or> HasSuffix code ''NotFound''))
        \<and> (\<forall>v. params ''name'' = Some v \<longrightarrow> tags (f ''instance'') v = None))"
  unfolding Create_Instance_DryRun_def
  by (auto simp: dryRunOperation_def notFound_def Let_def
           split: option.splits goerror.splits)

lemma Create_Instance_DryRun_setting_failed:
  "setFields params sf instanceSteps = Some e \<longrightarrow>
   Create_Instance_DryRun f params sf api tags = ((None, Some e), [])"
  by (simp add: Create_Instance_DryRun_def)

lemma Create_Instance_DryRun_refused:
  "setFields params sf instanceSteps = None
   \<and> \<not> (\<exists>code msg. api ''RunInstances'' = Some (AwsErr code msg)
          \<and> (code = ''DryRunOperation'' \<or> HasSuffix code ''NotFound'')) \<longrightarrow>
   Create_Instance_DryRun f params sf api tags
     = ((None, api ''RunInstances''),
        [Errorf ''dry run: create instance error: %s'' (api ''RunInstances'')])"
  unfolding Create_Instance_DryRun_def
  by (auto simp: dryRunOperation_def notFound_def Let_def
           split: option.splits goerror.splits)

lemma Create_Instance_DryRun_accepted:
  "setFields params sf instanceSteps = None
   \<and> (\<exists>code msg. api ''RunInstances'' = Some (AwsErr code msg)
         \<and> (code = ''DryRunOperation'' \<or> HasSuffix code ''NotFound''))
   \<and> (\<forall>v. params ''name'' = Some v \<longrightarrow> tags (f ''instance'') v = None) \<longrightarrow>
   Create_Instance_DryRun f params sf api tags
     = ((Some (f ''instance''), None), [Verbose ''full dry run: create instance ok''])"
  unfolding Create_Instance_DryRun_def
  by (auto simp: dryRunOperation_def notFound_def Let_def
           split: option.splits goerror.splits)

lemma Create_Instance_DryRun_tags_failed:
  "setFields params sf instanceSteps = None
   \<and> (\<exists>code msg. api ''RunInstances'' = Some (AwsErr code msg)
         \<and> (code = ''DryRunOperation'' \<or> HasSuffix code ''NotFound''))
   \<and> params ''name'' = Some v \<and> tags (f ''instance'') v = Some e \<longrightarrow>
   Create_Instance_DryRun f params sf api tags
     = ((None, Some e), [Errorf ''create instance: adding tags: error: %s'' (Some e)])"
  unfolding Create_Instance_DryRun_def
  by (auto simp: dryRunOperation_def notFound_def Let_def
           split: option.splits goerror.splits)

text \<open>
  C6, as stated, fails on \<^verbatim>\<open>Create_Instance_DryRun\<close>: every parameter is set, the
  platform call \<^verbatim>\<open>RunInstances\<close> returns an error with the code \<^verbatim>\<open>DryRunOperation\<close>,
  the parameter \<^verbatim>\<open>name\<close> is present and \<^verbatim>\<open>Create_Tags_DryRun\<close> fails. The function
  returns no identifier, and the error it returns is the one of the tags, not the one
  of the platform call.
\<close>

theorem Create_Instance_DryRun_no_identifier:
  "Create_Instance_DryRun (\<lambda>e. ''dryrun-'' @ e)
     [''image'' \<mapsto> ''ami-1'', ''count'' \<mapsto> ''1'', ''type'' \<mapsto> ''t2.micro'',
      ''subnet'' \<mapsto> ''subnet-1'', ''name'' \<mapsto> ''web'']
     (\<lambda>v field ty. None)
     (\<lambda>operation. Some (AwsErr ''DryRunOperation'' ''request would have succeeded''))
     (\<lambda>id v. Some (OtherErr ''tags refused''))
   = ((None, Some (OtherErr ''tags refused'')),
      [Errorf ''create instance: adding tags: error: %s'' (Some (OtherErr ''tags refused''))])"
  by (simp add: Create_Instance_DryRun_def instanceSteps_def dryRunOperation_def)

text \<open>
  C6, amended. Each of the 24 functions that are the template and nothing more returns
  the synthesized identifier (\<^verbatim>\<open>fakeDryRunId\<close> of its entity) with a nil error exactly
  when every parameter was set without error and the platform call returned an
  \<^verbatim>\<open>awserr.Error\<close> whose code is \<^verbatim>\<open>DryRunOperation\<close> or ends with \<^verbatim>\<open>NotFound\<close>. When
  setting a parameter fails, that error is returned, no identifier, and nothing is
  logged. When the parameters are set and the platform call returns anything else (no
  error included), no identifier is returned and what the platform call returned is
  logged and handed back unchanged. \<^verbatim>\<open>Create_Vpc_DryRun\<close> is the first of the 24.
  \<^verbatim>\<open>Create_Instance_DryRun\<close> returns the identifier under one more condition: the
  parameter \<^verbatim>\<open>name\<close> is absent or \<^verbatim>\<open>Create_Tags_DryRun\<close> succeeds; when the tags fail,
  it returns their error and no identifier.
\<close>

theorem DryRun_synthesis:
  "(fst (fullDryRun d f params sf api) = (Some (f (entity d)), None))
     = (setFields params sf (steps d) = None
        \<and> (\<exists>code msg. api (apiCall d) = Some (AwsErr code msg)
              \<and> (code = ''DryRunOperation'' \<or> HasSuffix code ''NotFound'')))
   \<and> (setFields params sf (steps d) = Some e \<longrightarrow>
        fullDryRun d f params sf api = ((None, Some e), []))
   \<and> (setFields params sf (steps d) = None
        \<and> \<not> (\<exists>code msg. api (apiCall d) = Some (AwsErr code msg)
               \<and> (code = ''DryRunOperation'' \<or> HasSuffix code ''NotFound'')) \<longrightarrow>
        fullDryRun d f params sf api
          = ((None, api (apiCall d)),
             [Errorf (''dry run: '' @ verb d @ '' '' @ entity d @ '' error: %s'')
                (api (apiCall d))]))
   \<and> (setFields params sf (steps d) = None
        \<and> (\<exists>code msg. api (apiCall d) = Some (AwsErr code msg)
              \<and> (code = ''DryRunOperation'' \<or> HasSuffix code ''NotFound'')) \<longrightarrow>
        fullDryRun d f params sf api
          = ((Some (f (entity d)), None),
             [Verbose (''full dry run: '' @ verb d @ '' '' @ entity d @ '' ok'')]))
   \<and> Create_Vpc_DryRun f (sf (params ''cidr'') ''CidrBlock'' ''awsstr'') (api ''CreateVpc'')
       = fullDryRun (hd fullDryRuns) f params sf api
   \<and> (fst (Create_Vpc_DryRun f se r) = (Some (f ''vpc''), None))
       = (se = None \<and> (\<exists>code msg. r = Some (AwsErr code msg)
                          \<and> (code = ''DryRunOperation'' \<or> HasSuffix code ''NotFound'')))
   \<and> length fullDryRuns = 24
   \<and> (fst (Create_Instance_DryRun f params sf api tags) = (Some (f ''instance''), None))
       = (setFields params sf instanceSteps = None
          \<and> (\<exists>code msg. api ''RunInstances'' = Some (AwsErr code msg)
                \<and> (code = ''DryRunOperation'' \<or> HasSuffix code ''NotFound''))
          \<and> (\<forall>v. params ''name'' = Some v \<longrightarrow> tags (f ''instance'') v = None))
   \<and> (setFields params sf instanceSteps = Some e \<longrightarrow>
        Create_Instance_DryRun f params sf api tags = ((None, Some e), []))
   \<and> (setFields params sf instanceSteps = None
        \<and> \<not> (\<exists>code msg. api ''RunInstances'' = Some (AwsErr code msg)
               \<and> (code = ''DryRunOperation'' \<or> HasSuffix code ''NotFound'')) \<longrightarrow>
        Create_Instance_DryRun f params sf api tags
          = ((None, api ''RunInstances''),
             [Errorf ''dry run: create instance error: %s'' (api ''RunInstances'')]))
   \<and> (setFields params sf instanceSteps = None
        \<and> (\<exists>code msg. api ''RunInstances'' = Some (AwsErr code msg)
              \<and> (code = ''DryRunOperation'' \<or> HasSuffix code ''NotFound''))
        \<and> (\<forall>v. params ''name'' = Some v \<longrightarrow> tags (f ''instance'') v = None) \<longrightarrow>
        Create_Instance_DryRun f params sf api tags
          = ((Some (f ''instance''), None), [Verbose ''full dry run: create instance ok'']))
   \<and> (setFields params sf instanceSteps = None
        \<and> (\<exists>code msg. api ''RunInstances'' = Some (AwsErr code msg)
              \<and> (code = ''DryRunOperation'' \<or> HasSuffix code ''NotFound''))
        \<and> params ''name'' = Some v \<and> tags (f ''instance'') v = Some e \<longrightarrow>
        Create_Instance_DryRun f params sf api tags
          = ((None, Some e), [Errorf ''create instance: adding tags: error: %s'' (Some e)]))"
proof -
  have n: "length fullDryRuns = 24" by (simp add: fullDryRuns_def)
  show ?thesis
    by (rule conjI [OF fullDryRun_synthesized conjI [OF fullDryRun_setting_failed
          conjI [OF fullDryRun_refused conjI [OF fullDryRun_accepted
          conjI [OF Create_Vpc_DryRun_template conjI [OF Create_Vpc_DryRun_synthesized
          conjI [OF n
          conjI [OF Create_Instance_DryRun_synthesized
          conjI [OF Create_Instance_DryRun_setting_failed
          conjI [OF Create_Instance_DryRun_refused
          conjI [OF Create_Instance_DryRun_accepted
                    Create_Instance_DryRun_tags_failed]]]]]]]]]]])
qed

theorem DryRun_synthesis_witness:
  "fst (fullDryRun (fullDryRuns ! 2) (\<lambda>e. ''dryrun-'' @ e)
          [''cidr'' \<mapsto> ''10.0.1.0/24'', ''vpc'' \<mapsto> ''vpc-1'']
          (\<lambda>v field ty. None)
          (\<lambda>operation. Some (AwsErr ''InvalidVpcID.NotFound'' ''no such vpc'')))
     = (Some ''dryrun-subnet'', None)
   \<and> fullDryRun (fullDryRuns ! 2) (\<lambda>e. ''dryrun-'' @ e)
        [''cidr'' \<mapsto> ''10.0.1.0/24'']
        (\<lambda>v field ty. case v of None \<Rightarrow> Some (OtherErr (''missing '' @ field)) | Some x \<Rightarrow> None)
        (\<lambda>operation. Some (AwsErr ''InvalidVpcID.NotFound'' ''no such vpc''))
     = ((None, Some (OtherErr ''missing VpcId'')), [])
   \<and> fullDryRun (fullDryRuns ! 2) (\<lambda>e. ''dryrun-'' @ e)
        [''cidr'' \<mapsto> ''10.0.1.0/24'', ''vpc'' \<mapsto> ''vpc-1'']
        (\<lambda>v field ty. None)
        (\<lambda>operation. Some (AwsErr ''UnauthorizedOperation'' ''denied''))
     = ((None, Some (AwsErr ''UnauthorizedOperation'' ''denied'')),
        [Errorf ''dry run: create subnet error: %s''
           (Some (AwsErr ''UnauthorizedOperation'' ''denied''))])"
proof -
  let ?d = "fullDryRuns ! 2"
  let ?f = "\<lambda>e. ''dryrun-'' @ e"
  let ?p = "[''cidr'' \<mapsto> ''10.0.1.0/24'', ''vpc'' \<mapsto> ''vpc-1''] :: string \<rightharpoonup> string"
  let ?q = "[''cidr'' \<mapsto> ''10.0.1.0/24''] :: string \<rightharpoonup> string"
  let ?sf = "\<lambda>(v :: string option) (field :: string) (ty :: string). None :: goerror option"
  let ?sg = "\<lambda>(v :: string option) (field :: string) (ty :: string).
               case v of None \<Rightarrow> Some (OtherErr (''missing '' @ field)) | Some x \<Rightarrow> None"
  let ?ok = "\<lambda>operation :: string. Some (AwsErr ''InvalidVpcID.NotFound'' ''no such vpc'')"
  let ?no = "\<lambda>operation :: string. Some (AwsErr ''UnauthorizedOperation'' ''denied'')"
  have d: "?d = \<lparr>verb = ''create'', entity = ''subnet'', apiCall = ''CreateSubnet'',
        steps = [Required ''cidr'' ''CidrBlock'' ''awsstr'',
                 Required ''vpc'' ''VpcId'' ''awsstr'',
                 Extra ''zone'' ''AvailabilityZone'' ''awsstr'']\<rparr>"
    by (simp add: fullDryRuns_def)
  have s1: "setFields ?p ?sf (steps ?d) = None" unfolding d by simp
  have s2: "setFields ?q ?sg (steps ?d) = Some (OtherErr ''missing VpcId'')" unfolding d by simp
  have h1: "\<exists>code msg. ?ok (apiCall ?d) = Some (AwsErr code msg)
              \<and> (code = ''DryRunOperation'' \<or> HasSuffix code ''NotFound'')"
    by (simp add: HasSuffix_def)
  have h2: "\<not> (\<exists>code msg. ?no (apiCall ?d) = Some (AwsErr code msg)
              \<and> (code = ''DryRunOperation'' \<or> HasSuffix code ''NotFound''))"
    by (simp add: HasSuffix_def)
  note t = DryRun_synthesis
  have a: "fst (fullDryRun ?d ?f ?p ?sf ?ok) = (Some (?f (entity ?d)), None)"
    by (rule iffD2 [OF conjunct1 [OF t] conjI [OF s1 h1]])
  have b: "fullDryRun ?d ?f ?q ?sg ?ok = ((None, Some (OtherErr ''missing VpcId'')), [])"
    by (rule mp [OF conjunct1 [OF conjunct2 [OF t]] s2])
  have c: "fullDryRun ?d ?f ?p ?sf ?no
     = ((None, ?no (apiCall ?d)),
        [Errorf (''dry run: '' @ verb ?d @ '' '' @ entity ?d @ '' error: %s'') (?no (apiCall ?d))])"
    by (rule mp [OF conjunct1 [OF conjunct2 [OF conjunct2 [OF t]]] conjI [OF s1 h2]])
  have e: "entity ?d = ''subnet''" "verb ?d = ''create''" unfolding d by simp_all
  from a have a': "fst (fullDryRun ?d ?f ?p ?sf ?ok) = (Some ''dryrun-subnet'', None)"
    unfolding e by simp
  from c have c': "fullDryRun ?d ?f ?p ?sf ?no
     = ((None, Some (AwsErr ''UnauthorizedOperation'' ''denied'')),
        [Errorf ''dry run: create subnet error: %s''
           (Some (AwsErr ''UnauthorizedOperation'' ''denied''))])"
    unfolding e by simp
  show ?thesis by (rule conjI [OF a' conjI [OF b c']])
qed

text \<open>
  C10. When the platform call returns no error at all, \<^verbatim>\<open>Create_Vpc_DryRun\<close>
  returns \<^verbatim>\<open>(nil, nil)\<close>: the type assertion fails on the nil error, the error branch
  logs it and hands the nil error back.
\<close>

theorem Create_Vpc_DryRun_nil_error:
  "Create_Vpc_DryRun f None None
     = ((None, None), [Errorf ''dry run: create vpc error: %s'' None])"
  by (simp add: Create_Vpc_DryRun_def)

section \<open>Properties of the revert command\<close>

text \<open>
  C7. Without a REVERTID argument \<^verbatim>\<open>RunE\<close> returns the error and has no effect at
  all, so the execution-history store is not touched. With an argument the command
  opens the store, loads the record of the first argument with
  \<^verbatim>\<open>GetTemplateExecution\<close>, closes the store, builds the reverted template, prints it,
  and only then runs it. It stops at the first of these steps that fails, by exiting
  the process with that error: after a failure to open the store nothing else happens;
  after a failure to load the record the store is still closed and nothing else
  happens; after a failure of \<^verbatim>\<open>Revert\<close> nothing is printed or run; a failure of
  \<^verbatim>\<open>runTemplate\<close> comes after the template was printed and run. The command returns
  nil exactly when every step succeeded. In every run, a trace that holds
  \<^verbatim>\<open>runTemplate\<close> is the full trace, with the print right before it.
\<close>

theorem RunE_flow:
  "(args = [] \<longrightarrow>
      RunE c args
        = ([], Returned (Some ''REVERTID required (see `awless log` to list revert ids)'')))
   \<and> (args \<noteq> [] \<and> dbCurrent c = Some e \<longrightarrow> RunE c args = ([DbCurrent], Exited e))
   \<and> (args \<noteq> [] \<and> dbCurrent c = None \<and> getTemplateExecution c (hd args) = Inl e \<longrightarrow>
        RunE c args = ([DbCurrent, GetTemplateExecution (hd args), DbClose], Exited e))
   \<and> (args \<noteq> [] \<and> dbCurrent c = None \<and> getTemplateExecution c (hd args) = Inr x
        \<and> revert c x = Inl e \<longrightarrow>
        RunE c args
          = ([DbCurrent, GetTemplateExecution (hd args), DbClose, RevertCall x], Exited e))
   \<and> (args \<noteq> [] \<and> dbCurrent c = None \<and> getTemplateExecution c (hd args) = Inr x
        \<and> revert c x = Inr t \<and> runTemplate c t = Some e \<longrightarrow>
        RunE c args
          = ([DbCurrent, GetTemplateExecution (hd args), DbClose, RevertCall x,
              Printf t, RunTemplate t], Exited e))
   \<and> (args \<noteq> [] \<and> dbCurrent c = None \<and> getTemplateExecution c (hd args) = Inr x
        \<and> revert c x = Inr t \<and> runTemplate c t = None \<longrightarrow>
        RunE c args
          = ([DbCurrent, GetTemplateExecution (hd args), DbClose, RevertCall x,
              Printf t, RunTemplate t], Returned None))
   \<and> (RunTemplate t \<in> set (fst (RunE c args)) \<longrightarrow>
        (\<exists>x. getTemplateExecution c (hd args) = Inr x \<and> revert c x = Inr t
           \<and> fst (RunE c args)
               = [DbCurrent, GetTemplateExecution (hd args), DbClose, RevertCall x,
                  Printf t, RunTemplate t]))
   \<and> (snd (RunE c args) = Returned None) =
       (args \<noteq> [] \<and> dbCurrent c = None
        \<and> (\<exists>x t. getTemplateExecution c (hd args) = Inr x \<and> revert c x = Inr t
                   \<and> runTemplate c t = None))"
  by (cases args)
     (simp_all add: RunE_def exitOn_def Let_def split: option.splits sum.splits)

theorem RunE_flow_witness:
  "RunE \<lparr>dbCurrent = None, getTemplateExecution = (\<lambda>i. Inr (i, True)),
         revert = (\<lambda>x. Inr (fst x)), runTemplate = (\<lambda>t. None)\<rparr> [''01BA7RV6ES86PZYCM3H28WM6KZ'']
     = ([DbCurrent, GetTemplateExecution ''01BA7RV6ES86PZYCM3H28WM6KZ'', DbClose,
         RevertCall (''01BA7RV6ES86PZYCM3H28WM6KZ'', True),
         Printf ''01BA7RV6ES86PZYCM3H28WM6KZ'', RunTemplate ''01BA7RV6ES86PZYCM3H28WM6KZ''],
        Returned None)
   \<and> RunE \<lparr>dbCurrent = None, getTemplateExecution = (\<lambda>i. Inr (i, True)),
           revert = (\<lambda>x. Inr (fst x)), runTemplate = (\<lambda>t. Some ''driver error'')\<rparr>
        [''01BA7RV6ES86PZYCM3H28WM6KZ'']
     = ([DbCurrent, GetTemplateExecution ''01BA7RV6ES86PZYCM3H28WM6KZ'', DbClose,
         RevertCall (''01BA7RV6ES86PZYCM3H28WM6KZ'', True),
         Printf ''01BA7RV6ES86PZYCM3H28WM6KZ'', RunTemplate ''01BA7RV6ES86PZYCM3H28WM6KZ''],
        Exited ''driver error'')
   \<and> RunE \<lparr>dbCurrent = None, getTemplateExecution = (\<lambda>i. Inl ''no such execution''),
           revert = (\<lambda>x :: string \<times> bool. Inr (fst x)), runTemplate = (\<lambda>t. None)\<rparr>
        [''01BA7RV6ES86PZYCM3H28WM6KZ'']
     = ([DbCurrent, GetTemplateExecution ''01BA7RV6ES86PZYCM3H28WM6KZ'', DbClose],
        Exited ''no such execution'')
   \<and> RunE \<lparr>dbCurrent = None, getTemplateExecution = (\<lambda>i. Inr (i, True)),
           revert = (\<lambda>x. Inr (fst x)), runTemplate = (\<lambda>t. None)\<rparr> []
     = ([], Returned (Some ''REVERTID required (see `awless log` to list revert ids)''))"
proof -
  let ?i = "''01BA7RV6ES86PZYCM3H28WM6KZ''"
  let ?c = "\<lparr>dbCurrent = None, getTemplateExecution = (\<lambda>i. Inr (i, True)),
         revert = (\<lambda>x. Inr (fst x)), runTemplate = (\<lambda>t. None)\<rparr>
         :: (string \<times> bool, string) collaborators"
  let ?d = "\<lparr>dbCurrent = None, getTemplateExecution = (\<lambda>i. Inr (i, True)),
         revert = (\<lambda>x. Inr (fst x)), runTemplate = (\<lambda>t. Some ''driver error'')\<rparr>
         :: (string \<times> bool, string) collaborators"
  let ?g = "\<lparr>dbCurrent = None, getTemplateExecution = (\<lambda>i. Inl ''no such execution''),
         revert = (\<lambda>x. Inr (fst x)), runTemplate = (\<lambda>t. None)\<rparr>
         :: (string \<times> bool, string) collaborators"
  note r = RunE_flow
  note ok = conjunct1 [OF conjunct2 [OF conjunct2 [OF conjunct2 [OF conjunct2 [OF conjunct2 [OF r]]]]]]
  note failed = conjunct1 [OF conjunct2 [OF conjunct2 [OF conjunct2 [OF conjunct2 [OF r]]]]]
  note noload = conjunct1 [OF conjunct2 [OF conjunct2 [OF r]]]
  have p: "[?i] \<noteq> [] \<and> dbCurrent ?c = None \<and> getTemplateExecution ?c (hd [?i]) = Inr (?i, True)
        \<and> revert ?c (?i, True) = Inr ?i \<and> runTemplate ?c ?i = None"
    by simp
  have q: "[?i] \<noteq> [] \<and> dbCurrent ?d = None \<and> getTemplateExecution ?d (hd [?i]) = Inr (?i, True)
        \<and> revert ?d (?i, True) = Inr ?i \<and> runTemplate ?d ?i = Some ''driver error''"
    by simp
  have s: "[?i] \<noteq> [] \<and> dbCurrent ?g = None
        \<and> getTemplateExecution ?g (hd [?i]) = Inl ''no such execution''"
    by simp
  have a: "RunE ?c [?i] = ([DbCurrent, GetTemplateExecution (hd [?i]), DbClose,
              RevertCall (?i, True), Printf ?i, RunTemplate ?i], Returned None)"
    by (rule mp [OF ok p])
  have b: "RunE ?d [?i] = ([DbCurrent, GetTemplateExecution (hd [?i]), DbClose,
              RevertCall (?i, True), Printf ?i, RunTemplate ?i], Exited ''driver error'')"
    by (rule mp [OF failed q])
  have c: "RunE ?g [?i] = ([DbCurrent, GetTemplateExecution (hd [?i]), DbClose],
              Exited ''no such execution'')"
    by (rule mp [OF noload s])
  have d: "RunE ?c [] = ([], Returned (Some ''REVERTID required (see `awless log` to list revert ids)''))"
    by (rule mp [OF conjunct1 [OF r] refl])
  show ?thesis
    by (rule conjI [OF a [unfolded list.sel] conjI [OF b [unfolded list.sel]
          conjI [OF c [unfolded list.sel] d]]])
qed

section \<open>Properties of the revert generator\<close>

lemma invert_entries_statements:
  "fst (invert_entries mk es)
     = map (\<lambda>e. inverse_statement mk (the (inverse_action (entryAction e))) e)
         (filter (\<lambda>e. inverse_action (entryAction e) \<noteq> None) es)"
  by (induction es) (auto split: option.splits)

text \<open>
  C4. For every execution record, the statements of the reverted template are the
  inverses of the successfully executed, invertible entries, in the reverse of the
  execution order: the last executed entry is reverted first. Consequently the
  reverted template of a record \<open>r1 @ r2\<close> is the one of \<open>r2\<close> followed by the one
  of \<open>r1\<close>.
\<close>

theorem Revert_ordering:
  "fst (Revert mk executed)
     = map (\<lambda>e. inverse_statement mk (the (inverse_action (entryAction e))) e)
         (rev (filter invertible executed))
   \<and> fst (Revert mk (r1 @ r2)) = fst (Revert mk r2) @ fst (Revert mk r1)"
proof -
  have a: "filter (\<lambda>e. inverse_action (entryAction e) \<noteq> None) (rev (filter succeeded r))
             = rev (filter invertible r)" for r
    by (induction r) (auto simp: invertible_def)
  have b: "fst (Revert mk r)
     = map (\<lambda>e. inverse_statement mk (the (inverse_action (entryAction e))) e)
         (rev (filter invertible r))" for r
    by (simp only: Revert_def invert_entries_statements a)
  show ?thesis
    unfolding b by simp
qed

section \<open>Properties of the parser\<close>

lemmas parser_defs =
  runeAt_def add_def matchClass_def matchDot_def matchRune_def andThen_def orElse_def
  token_def emit_def notAhead_def optional_def classLoop.simps classPlus_def inRange_def
  isDigit_def isIdentifierRune_def isStringValueRune_def digits_def Whitespace_def
  EndOfLine_def Space_def SpaceLoop.simps WhitespaceLoop.simps EndOfLineLoop.simps
  Spacing_def WhiteSpacing_def MustWhiteSpacing_def Equal_def Identifier_def StringValue_def
  CidrValue_def IpValue_def CSVItem_def CSVLoop.simps CSVValue_def IntRangeValue_def
  IntValue_def RefValue_def AliasValue_def HoleValue_def ValueCidr_def ValueIp_def
  ValueCSV_def ValueIntRange_def ValueInt_def ValueSwitch_def Value_def Param_def
  ParamLoop.simps Params_def Action_def Entity_def Expr_def Declaration_def CommentRune_def
  CommentLoop.simps Comment_def Statement_def StatementLoop.simps EndOfFile_def Script_def
  reset_def Parse_def slice_def Execute_def parseValue_def stringValuesOf_def

subsection \<open>Value precedence\<close>

lemma Value_order:
  "Value b st =
     (case ValueCidr b st of
        Matched s \<Rightarrow> Matched (add ruleValue (position st) s)
      | Failed m1 \<Rightarrow>
     (case ValueIp b (st\<lparr>maxTok := m1\<rparr>) of
        Matched s \<Rightarrow> Matched (add ruleValue (position st) s)
      | Failed m2 \<Rightarrow>
     (case ValueCSV b (st\<lparr>maxTok := m2\<rparr>) of
        Matched s \<Rightarrow> Matched (add ruleValue (position st) s)
      | Failed m3 \<Rightarrow>
     (case ValueIntRange b (st\<lparr>maxTok := m3\<rparr>) of
        Matched s \<Rightarrow> Matched (add ruleValue (position st) s)
      | Failed m4 \<Rightarrow>
     (case ValueInt b (st\<lparr>maxTok := m4\<rparr>) of
        Matched s \<Rightarrow> Matched (add ruleValue (position st) s)
      | Failed m5 \<Rightarrow>
     (case ValueSwitch b (st\<lparr>maxTok := m5\<rparr>) of
        Matched s \<Rightarrow> Matched (add ruleValue (position st) s)
      | Failed m6 \<Rightarrow> Failed m6))))))"
  by (simp add: Value_def token_def orElse_def split: outcome.splits)

lemma ValueSwitch_order:
  "ValueSwitch b st =
     (if runeAt b (position st) = Some CHR ''$''
      then andThen (RefValue b) (emit ruleAction7) st
      else if runeAt b (position st) = Some CHR ''@''
      then andThen (AliasValue b) (emit ruleAction6) st
      else if runeAt b (position st) = Some CHR ''{''
      then andThen (HoleValue b) (emit ruleAction5) st
      else andThen (token rulePegText (StringValue b)) (emit ruleAction13) st)"
  by (simp add: ValueSwitch_def)

lemma parseValue_cidr:
  "parseValue ''10.0.0.0/24''
     = Some ([ruleCidrValue, rulePegText, ruleAction8, ruleValue],
             [addParamCidrValue ''10.0.0.0/24''])"
  by (simp add: parser_defs)

lemma parseValue_ip:
  "parseValue ''10.0.0.0''
     = Some ([ruleIpValue, rulePegText, ruleAction9, ruleValue], [addParamIpValue ''10.0.0.0''])"
  by (simp add: parser_defs)

lemma parseValue_csv:
  "parseValue ''a,b,c''
     = Some ([ruleStringValue, ruleWhiteSpacing, ruleWhiteSpacing,
              ruleStringValue, ruleWhiteSpacing, ruleWhiteSpacing,
              ruleStringValue, ruleCSVValue, rulePegText, ruleAction10, ruleValue],
             [addCsvValue ''a,b,c''])"
  by (simp add: parser_defs)

lemma stringValuesOf_csv: "stringValuesOf ''a,b,c'' = [''a'', ''b'', ''c'']"
  by (simp add: parser_defs)

lemma parseValue_hole:
  "parseValue ''{name}''
     = Some ([ruleWhiteSpacing, ruleIdentifier, rulePegText, ruleWhiteSpacing, ruleHoleValue,
              ruleAction5, ruleValue], [addParamHoleValue ''name''])"
  by (simp add: parser_defs)

lemma parseValue_ref:
  "parseValue ''$name''
     = Some ([ruleIdentifier, rulePegText, ruleRefValue, ruleAction7, ruleValue],
             [addParamRefValue ''name''])"
  by (simp add: parser_defs)

lemma parseValue_alias:
  "parseValue ''@name''
     = Some ([ruleStringValue, rulePegText, ruleAliasValue, ruleAction6, ruleValue],
             [addParamValue ''@name''])"
  by (simp add: parser_defs)

lemma parseValue_intrange:
  "parseValue ''42-100''
     = Some ([ruleIntRangeValue, rulePegText, ruleAction11, ruleValue],
             [addParamValue ''42-100''])"
  by (simp add: parser_defs)

lemma parseValue_int:
  "parseValue ''42''
     = Some ([ruleIntValue, rulePegText, ruleAction12, ruleValue], [addParamIntValue ''42''])"
  by (simp add: parser_defs)

lemma parseValue_string:
  "parseValue ''vpc-123''
     = Some ([ruleStringValue, rulePegText, ruleAction13, ruleValue],
             [addParamValue ''vpc-123''])"
  by (simp add: parser_defs)

text \<open>
  C1. The alternatives of a parameter value are tried in the order CIDR, IP, CSV,
  IntRange, Int, then the switch on the leading rune (\<^verbatim>\<open>$\<close> Reference, \<^verbatim>\<open>@\<close> Alias,
  \<^verbatim>\<open>{\<close> Hole, anything else String), each one from the cursor where the value
  starts, and the first that matches is the value. The tokens of the claim are
  recognized accordingly: for each, the rules of the parse tree and the call that
  \<^verbatim>\<open>Execute\<close> makes on the builder (the three elements of the CSV list are the
  \<^verbatim>\<open>StringValue\<close> tokens of the tree; an integer range and an alias reach the builder
  through \<^verbatim>\<open>addParamValue\<close> with the matched text).
\<close>

theorem Value_precedence:
  "Value b st =
     (case ValueCidr b st of
        Matched s \<Rightarrow> Matched (add ruleValue (position st) s)
      | Failed m1 \<Rightarrow>
     (case ValueIp b (st\<lparr>maxTok := m1\<rparr>) of
        Matched s \<Rightarrow> Matched (add ruleValue (position st) s)
      | Failed m2 \<Rightarrow>
     (case ValueCSV b (st\<lparr>maxTok := m2\<rparr>) of
        Matched s \<Rightarrow> Matched (add ruleValue (position st) s)
      | Failed m3 \<Rightarrow>
     (case ValueIntRange b (st\<lparr>maxTok := m3\<rparr>) of
        Matched s \<Rightarrow> Matched (add ruleValue (position st) s)
      | Failed m4 \<Rightarrow>
     (case ValueInt b (st\<lparr>maxTok := m4\<rparr>) of
        Matched s \<Rightarrow> Matched (add ruleValue (position st) s)
      | Failed m5 \<Rightarrow>
     (case ValueSwitch b (st\<lparr>maxTok := m5\<rparr>) of
        Matched s \<Rightarrow> Matched (add ruleValue (position st) s)
      | Failed m6 \<Rightarrow> Failed m6))))))
   \<and> ValueSwitch b st =
     (if runeAt b (position st) = Some CHR ''$''
      then andThen (RefValue b) (emit ruleAction7) st
      else if runeAt b (position st) = Some CHR ''@''
      then andThen (AliasValue b) (emit ruleAction6) st
      else if runeAt b (position st) = Some CHR ''{''
      then andThen (HoleValue b) (emit ruleAction5) st
      else andThen (token rulePegText (StringValue b)) (emit ruleAction13) st)
   \<and> parseValue ''10.0.0.0/24''
     = Some ([ruleCidrValue, rulePegText, ruleAction8, ruleValue],
             [addParamCidrValue ''10.0.0.0/24''])
   \<and> parseValue ''10.0.0.0''
     = Some ([ruleIpValue, rulePegText, ruleAction9, ruleValue], [addParamIpValue ''10.0.0.0''])
   \<and> parseValue ''a,b,c''
     = Some ([ruleStringValue, ruleWhiteSpacing, ruleWhiteSpacing,
              ruleStringValue, ruleWhiteSpacing, ruleWhiteSpacing,
              ruleStringValue, ruleCSVValue, rulePegText, ruleAction10, ruleValue],
             [addCsvValue ''a,b,c''])
   \<and> stringValuesOf ''a,b,c'' = [''a'', ''b'', ''c'']
   \<and> parseValue ''{name}''
     = Some ([ruleWhiteSpacing, ruleIdentifier, rulePegText, ruleWhiteSpacing, ruleHoleValue,
              ruleAction5, ruleValue], [addParamHoleValue ''name''])
   \<and> parseValue ''$name''
     = Some ([ruleIdentifier, rulePegText, ruleRefValue, ruleAction7, ruleValue],
             [addParamRefValue ''name''])
   \<and> parseValue ''@name''
     = Some ([ruleStringValue, rulePegText, ruleAliasValue, ruleAction6, ruleValue],
             [addParamValue ''@name''])
   \<and> parseValue ''42-100''
     = Some ([ruleIntRangeValue, rulePegText, ruleAction11, ruleValue],
             [addParamValue ''42-100''])
   \<and> parseValue ''42''
     = Some ([ruleIntValue, rulePegText, ruleAction12, ruleValue], [addParamIntValue ''42''])
   \<and> parseValue ''vpc-123''
     = Some ([ruleStringValue, rulePegText, ruleAction13, ruleValue],
             [addParamValue ''vpc-123''])"
  by (intro conjI Value_order ValueSwitch_order parseValue_cidr parseValue_ip parseValue_csv
        stringValuesOf_csv parseValue_hole parseValue_ref parseValue_alias
        parseValue_intrange parseValue_int parseValue_string)

subsection \<open>Comments\<close>

lemma Parse_hash_comment:
  "Parse ''#c''
     = Inr [\<lparr>pegRule = ruleSpacing, tbegin = 0, tend = 0\<rparr>,
            \<lparr>pegRule = ruleSpacing, tbegin = 0, tend = 0\<rparr>,
            \<lparr>pegRule = ruleComment, tbegin = 0, tend = 2\<rparr>,
            \<lparr>pegRule = ruleSpacing, tbegin = 2, tend = 2\<rparr>,
            \<lparr>pegRule = ruleStatement, tbegin = 0, tend = 2\<rparr>,
            \<lparr>pegRule = ruleEndOfFile, tbegin = 2, tend = 2\<rparr>,
            \<lparr>pegRule = ruleScript, tbegin = 0, tend = 2\<rparr>]"
  by (simp add: parser_defs)

lemma Parse_slash_comment:
  "Parse ''//c''
     = Inr [\<lparr>pegRule = ruleSpacing, tbegin = 0, tend = 0\<rparr>,
            \<lparr>pegRule = ruleSpacing, tbegin = 0, tend = 0\<rparr>,
            \<lparr>pegRule = ruleAction14, tbegin = 3, tend = 3\<rparr>,
            \<lparr>pegRule = ruleComment, tbegin = 0, tend = 3\<rparr>,
            \<lparr>pegRule = ruleSpacing, tbegin = 3, tend = 3\<rparr>,
            \<lparr>pegRule = ruleStatement, tbegin = 0, tend = 3\<rparr>,
            \<lparr>pegRule = ruleEndOfFile, tbegin = 3, tend = 3\<rparr>,
            \<lparr>pegRule = ruleScript, tbegin = 0, tend = 3\<rparr>]"
  by (simp add: parser_defs)

text \<open>
  C2. The text \<^verbatim>\<open>#c\<close> parses as one comment statement, and \<^verbatim>\<open>Execute\<close> makes no
  call at all for it: \<^verbatim>\<open>LineDone\<close> is not triggered. The text \<^verbatim>\<open>//c\<close> parses the same
  way with one more token, \<^verbatim>\<open>Action14\<close>, and \<^verbatim>\<open>Execute\<close> calls \<^verbatim>\<open>LineDone\<close> once.
\<close>

theorem Comment_LineDone_only_after_slashes:
  "map_sum id (Execute ''#c'') (Parse ''#c'') = Inr []
   \<and> map_sum id (Execute ''//c'') (Parse ''//c'') = Inr [LineDone]
   \<and> Comment ''#c'' reset
     = Matched \<lparr>position = 2, tree = [\<lparr>pegRule = ruleComment, tbegin = 0, tend = 2\<rparr>],
                maxTok = \<lparr>pegRule = ruleComment, tbegin = 0, tend = 2\<rparr>\<rparr>
   \<and> Comment ''//c'' reset
     = Matched \<lparr>position = 3, tree = [\<lparr>pegRule = ruleAction14, tbegin = 3, tend = 3\<rparr>,
                                      \<lparr>pegRule = ruleComment, tbegin = 0, tend = 3\<rparr>],
                maxTok = \<lparr>pegRule = ruleComment, tbegin = 0, tend = 3\<rparr>\<rparr>"
proof -
  have "Comment ''#c'' reset
     = Matched \<lparr>position = 2, tree = [\<lparr>pegRule = ruleComment, tbegin = 0, tend = 2\<rparr>],
                maxTok = \<lparr>pegRule = ruleComment, tbegin = 0, tend = 2\<rparr>\<rparr>"
    by (simp add: parser_defs)
  moreover have "Comment ''//c'' reset
     = Matched \<lparr>position = 3, tree = [\<lparr>pegRule = ruleAction14, tbegin = 3, tend = 3\<rparr>,
                                      \<lparr>pegRule = ruleComment, tbegin = 0, tend = 3\<rparr>],
                maxTok = \<lparr>pegRule = ruleComment, tbegin = 0, tend = 3\<rparr>\<rparr>"
    by (simp add: parser_defs)
  moreover have "map_sum id (Execute ''#c'') (Parse ''#c'') = Inr []"
    unfolding Parse_hash_comment by (simp add: Execute_def)
  moreover have "map_sum id (Execute ''//c'') (Parse ''//c'') = Inr [LineDone]"
    unfolding Parse_slash_comment by (simp add: Execute_def)
  ultimately show ?thesis by (intro conjI)
qed

subsection \<open>The separators of CIDR and IP literals\<close>

text \<open>
  C3. The separators between the digit groups are matched by \<^verbatim>\<open>matchDot\<close>, which
  accepts any rune: \<^verbatim>\<open>1a2b3c4/5\<close> is recognized as a CIDR value and \<^verbatim>\<open>1-2-3-4\<close> as
  an IP value, and both reach the builder as such.
\<close>

theorem Cidr_Ip_any_separator:
  "parseValue ''1a2b3c4/5''
     = Some ([ruleCidrValue, rulePegText, ruleAction8, ruleValue],
             [addParamCidrValue ''1a2b3c4/5''])
   \<and> parseValue ''1-2-3-4''
     = Some ([ruleIpValue, rulePegText, ruleAction9, ruleValue], [addParamIpValue ''1-2-3-4''])"
proof -
  have "parseValue ''1a2b3c4/5''
     = Some ([ruleCidrValue, rulePegText, ruleAction8, ruleValue],
             [addParamCidrValue ''1a2b3c4/5''])"
    by (simp add: parser_defs)
  moreover have "parseValue ''1-2-3-4''
     = Some ([ruleIpValue, rulePegText, ruleAction9, ruleValue], [addParamIpValue ''1-2-3-4''])"
    by (simp add: parser_defs)
  ultimately show ?thesis by (intro conjI)
qed

subsection \<open>Closed enumerations\<close>




lemma Parse_create_vpc:
  "Parse ''create vpc''
     = Inr [\<lparr>pegRule = ruleSpacing, tbegin = 0, tend = 0\<rparr>,
            \<lparr>pegRule = ruleSpacing, tbegin = 0, tend = 0\<rparr>,
            \<lparr>pegRule = ruleAction, tbegin = 0, tend = 6\<rparr>,
            \<lparr>pegRule = rulePegText, tbegin = 0, tend = 6\<rparr>,
            \<lparr>pegRule = ruleAction1, tbegin = 6, tend = 6\<rparr>,
            \<lparr>pegRule = ruleWhitespace, tbegin = 6, tend = 7\<rparr>,
            \<lparr>pegRule = ruleMustWhiteSpacing, tbegin = 6, tend = 7\<rparr>,
            \<lparr>pegRule = ruleEntity, tbegin = 7, tend = 10\<rparr>,
            \<lparr>pegRule = rulePegText, tbegin = 7, tend = 10\<rparr>,
            \<lparr>pegRule = ruleAction2, tbegin = 10, tend = 10\<rparr>,
            \<lparr>pegRule = ruleAction3, tbegin = 10, tend = 10\<rparr>,
            \<lparr>pegRule = ruleExpr, tbegin = 0, tend = 10\<rparr>,
            \<lparr>pegRule = ruleSpacing, tbegin = 10, tend = 10\<rparr>,
            \<lparr>pegRule = ruleStatement, tbegin = 0, tend = 10\<rparr>,
            \<lparr>pegRule = ruleEndOfFile, tbegin = 10, tend = 10\<rparr>,
            \<lparr>pegRule = ruleScript, tbegin = 0, tend = 10\<rparr>]"
  by (simp add: parser_defs)









subsection \<open>Syntax errors\<close>

lemmas error_defs =
  Error_def translatePositions_def lookupPosition_def lineAt_def symbolAt_def linesIn_def
  symbolsIn_def slice_def

lemma Parse_empty: "Parse [] = Inl \<lparr>pegRule = ruleUnknown, tbegin = 0, tend = 0\<rparr>"
  by (simp add: parser_defs)

lemma Error_empty:
  "Error [] \<lparr>pegRule = ruleUnknown, tbegin = 0, tend = 0\<rparr>
     = Some \<lparr>near = ''Unknown'', beginLine = 1, beginSymbol = 1, endLine = 1, endSymbol = 1,
             quoted = []\<rparr>"
  by (simp add: error_defs)

lemmas traced_defs =
  plain_def oneToken_def andThenT_def orElseT_def tokenT_def emitT_def notAheadT_def
  optionalT_def switchRuneT_def loopT_def SpaceT_def SpacingT_def WhitespaceLoopT_def
  WhiteSpacingT_def MustWhiteSpacingT_def EqualT_def IdentifierT_def StringValueT_def
  CSVItemT_def CSVValueT_def RefValueT_def AliasValueT_def HoleValueT_def ValueSwitchT_def
  ValueT_def ParamT_def ParamsT_def ExprT_def DeclarationT_def CommentRuneT_def CommentT_def
  StatementT_def ScriptT_def added_def

text \<open>
  On the empty text the parser adds two tokens, both empty: the \<^verbatim>\<open>Spacing\<close> of
  \<^verbatim>\<open>Script\<close>, and the \<^verbatim>\<open>Spacing\<close> of the first \<^verbatim>\<open>Statement\<close>, which is abandoned when
  no statement follows. So \<^verbatim>\<open>max\<close> is still the zero token when \<^verbatim>\<open>Script\<close> fails.
\<close>

lemma added_empty:
  "added [] =
     [\<lparr>pegRule = ruleSpacing, tbegin = 0, tend = 0\<rparr>,
      \<lparr>pegRule = ruleSpacing, tbegin = 0, tend = 0\<rparr>]"
  by (simp add: traced_defs parser_defs)

text \<open>
  C8, as stated, fails on the empty text: \<^verbatim>\<open>Parse\<close> returns an error whose message is
  \<^verbatim>\<open>parse error near Unknown (line 1 symbol 1 - line 1 symbol 1)\<close>, and \<^verbatim>\<open>Unknown\<close> is
  not a rule of the grammar.
\<close>

theorem SyntaxError_names_no_rule_on_empty_text:
  "Parse [] = Inl \<lparr>pegRule = ruleUnknown, tbegin = 0, tend = 0\<rparr>
   \<and> Error [] \<lparr>pegRule = ruleUnknown, tbegin = 0, tend = 0\<rparr>
     = Some \<lparr>near = ''Unknown'', beginLine = 1, beginSymbol = 1, endLine = 1, endSymbol = 1,
             quoted = []\<rparr>
   \<and> ''Unknown'' \<notin> set (map rul3s grammarRules)"
proof -
  have "''Unknown'' \<notin> set (map rul3s grammarRules)"
    by (simp add: grammarRules_def)
  with Parse_empty Error_empty show ?thesis by (intro conjI)
qed

text \<open>
  C8, amended. When the text does not match the grammar (the rule \<^verbatim>\<open>Script\<close> fails),
  \<^verbatim>\<open>Parse\<close> returns an error that carries the token \<^verbatim>\<open>max\<close>. That token is the result
  of the updates of \<^verbatim>\<open>add\<close> over all the tokens that the parser added while it tried
  its alternatives, those of abandoned alternatives included: no non-empty token that
  was added ends after it, and it is either the zero token (rule \<^verbatim>\<open>Unknown\<close>, from 0 to
  0) or the first of the added tokens that is non-empty and ends that far, a span inside
  the text labelled with the rule that added it. The message names the rule of that
  token, which is the rule that matched furthest and not necessarily the one that
  failed, gives the line and the symbol of the rune at its begin and of the rune at its
  end, and quotes the span.
\<close>

theorem SyntaxError_report:
  "Script b reset = Failed m \<Longrightarrow>
     Parse b = Inl m
     \<and> m = foldl better zeroToken (added b)
     \<and> (\<forall>t\<in>set (added b). tbegin t \<noteq> tend t \<longrightarrow> tend t \<le> tend m)
     \<and> (m = zeroToken
        \<or> (\<exists>xs ys. added b = xs @ m # ys
              \<and> (\<forall>t\<in>set xs. tbegin t \<noteq> tend t \<longrightarrow> tend t < tend m))
          \<and> tbegin m < tend m \<and> tend m \<le> length b \<and> pegRule m \<noteq> ruleUnknown)
     \<and> Error b m = Some \<lparr>near = rul3s (pegRule m),
          beginLine = lineAt b (tbegin m), beginSymbol = symbolAt b (tbegin m),
          endLine = lineAt b (tend m), endSymbol = symbolAt b (tend m),
          quoted = slice b (tbegin m) (tend m)\<rparr>"
proof -
  assume f: "Script b reset = Failed m"
  from Script_Failed [OF f] have t: "tokInv b m" .
  then have le: "tbegin m \<le> tend m" "tend m \<le> length b"
    by (auto simp: tokInv_def zeroToken_def)
  from f have 1: "Parse b = Inl m" by (simp add: Parse_def)
  note 2 = Script_max [OF f]
  from foldl_better_upper [of zeroToken "added b"]
  have 3: "\<forall>t\<in>set (added b). tbegin t \<noteq> tend t \<longrightarrow> tend t \<le> tend m"
    unfolding 2 [symmetric] by blast
  have 4: "m = zeroToken
        \<or> (\<exists>xs ys. added b = xs @ m # ys
              \<and> (\<forall>t\<in>set xs. tbegin t \<noteq> tend t \<longrightarrow> tend t < tend m))
          \<and> tbegin m < tend m \<and> tend m \<le> length b \<and> pegRule m \<noteq> ruleUnknown"
  proof (cases "m = zeroToken")
    case True
    then show ?thesis by simp
  next
    case False
    with 2 have "foldl better zeroToken (added b) \<noteq> zeroToken" by simp
    from foldl_better_first [OF this]
    have "\<exists>xs ys. added b = xs @ m # ys
              \<and> (\<forall>t\<in>set xs. tbegin t \<noteq> tend t \<longrightarrow> tend t < tend m)"
      unfolding 2 [symmetric] by blast
    with False t show ?thesis by (simp add: tokInv_def)
  qed
  from 1 2 3 4 Error_report [OF le] show ?thesis by blast
qed

lemma Script_trailing:
  "Script (''create vpc'' @ [CHR 0x0A] @ ''foo'') reset
     = Failed \<lparr>pegRule = ruleIdentifier, tbegin = 11, tend = 14\<rparr>"
  by (simp add: parser_defs)

theorem SyntaxError_report_witness:
  "Parse (''create vpc'' @ [CHR 0x0A] @ ''foo'')
     = Inl \<lparr>pegRule = ruleIdentifier, tbegin = 11, tend = 14\<rparr>
   \<and> foldl better zeroToken (added (''create vpc'' @ [CHR 0x0A] @ ''foo''))
     = \<lparr>pegRule = ruleIdentifier, tbegin = 11, tend = 14\<rparr>
   \<and> Error (''create vpc'' @ [CHR 0x0A] @ ''foo'')
        \<lparr>pegRule = ruleIdentifier, tbegin = 11, tend = 14\<rparr>
     = Some \<lparr>near = ''Identifier'', beginLine = 2, beginSymbol = 1, endLine = 2, endSymbol = 4,
             quoted = ''foo''\<rparr>"
proof -
  note r = SyntaxError_report [OF Script_trailing]
  have 1: "Parse (''create vpc'' @ [CHR 0x0A] @ ''foo'')
     = Inl \<lparr>pegRule = ruleIdentifier, tbegin = 11, tend = 14\<rparr>"
    by (rule conjunct1 [OF r])
  have 2: "foldl better zeroToken (added (''create vpc'' @ [CHR 0x0A] @ ''foo''))
     = \<lparr>pegRule = ruleIdentifier, tbegin = 11, tend = 14\<rparr>"
    by (rule conjunct1 [OF conjunct2 [OF r], symmetric])
  have 3: "Error (''create vpc'' @ [CHR 0x0A] @ ''foo'')
        \<lparr>pegRule = ruleIdentifier, tbegin = 11, tend = 14\<rparr>
     = Some \<lparr>near = ''Identifier'', beginLine = 2, beginSymbol = 1, endLine = 2, endSymbol = 4,
             quoted = ''foo''\<rparr>"
    unfolding conjunct2 [OF conjunct2 [OF conjunct2 [OF conjunct2 [OF r]]]]
    by (simp add: lineAt_def symbolAt_def linesIn_def symbolsIn_def slice_def)
  show ?thesis by (rule conjI [OF 1 conjI [OF 2 3]])
qed

subsection \<open>The whole input\<close>

lemma Parse_tiles:
  assumes "Parse b = Inr toks"
  shows "\<exists>p0 ts. toks = ts @ [\<lparr>pegRule = ruleEndOfFile, tbegin = length b, tend = length b\<rparr>,
                               \<lparr>pegRule = ruleScript, tbegin = 0, tend = length b\<rparr>]
           \<and> p0 \<le> length b \<and> list_all isSpaceRune (take p0 b)
           \<and> stmts toks \<noteq> [] \<and> contiguous p0 (stmts toks) (length b)"
proof -
  from assms obtain s where s: "Script b reset = Matched s" and t: "toks = tree s"
    by (auto simp: Parse_def split: outcome.splits)
  from Script_Matched [OF s] show ?thesis unfolding t by blast
qed

lemma Parse_trailing:
  "Parse (''create vpc'' @ [CHR 0x0A] @ ''foo'')
     = Inl \<lparr>pegRule = ruleIdentifier, tbegin = 11, tend = 14\<rparr>"
  using Script_trailing by (simp add: Parse_def)

text \<open>
  C9. \<^verbatim>\<open>Parse\<close> succeeds only on a text that is consumed to its end: the last two
  tokens are the end of file at the length of the text and the script from 0 to that
  length; there is at least one statement; the first statement starts after leading
  runes that are all spaces, tabs or line ends, every further statement starts where
  the one before it ends, and the last one ends at the end of the text. The empty text
  is a parse error, and so is a text whose last line forms no statement
  (\<^verbatim>\<open>create vpc\<close>, a newline, \<^verbatim>\<open>foo\<close>): the statement before it is not returned.
\<close>

theorem Parse_whole_input:
  "(Parse b = Inr toks \<longrightarrow>
      (\<exists>p0 ts. toks = ts @ [\<lparr>pegRule = ruleEndOfFile, tbegin = length b, tend = length b\<rparr>,
                            \<lparr>pegRule = ruleScript, tbegin = 0, tend = length b\<rparr>]
         \<and> p0 \<le> length b \<and> list_all isSpaceRune (take p0 b)
         \<and> stmts toks \<noteq> [] \<and> contiguous p0 (stmts toks) (length b)))
   \<and> Parse [] = Inl \<lparr>pegRule = ruleUnknown, tbegin = 0, tend = 0\<rparr>
   \<and> Parse (''create vpc'' @ [CHR 0x0A] @ ''foo'')
     = Inl \<lparr>pegRule = ruleIdentifier, tbegin = 11, tend = 14\<rparr>"
  using Parse_tiles [of b toks] Parse_empty Parse_trailing by blast

theorem Parse_whole_input_witness:
  "stmts (projr (Parse ''create vpc'')) = [\<lparr>pegRule = ruleStatement, tbegin = 0, tend = 10\<rparr>]
   \<and> (\<exists>p0 ts. projr (Parse ''create vpc'')
          = ts @ [\<lparr>pegRule = ruleEndOfFile, tbegin = 10, tend = 10\<rparr>,
                  \<lparr>pegRule = ruleScript, tbegin = 0, tend = 10\<rparr>]
        \<and> p0 \<le> 10 \<and> list_all isSpaceRune (take p0 ''create vpc'')
        \<and> stmts (projr (Parse ''create vpc'')) \<noteq> []
        \<and> contiguous p0 (stmts (projr (Parse ''create vpc''))) 10)"
proof -
  note p = Parse_create_vpc
  have 1: "stmts (projr (Parse ''create vpc''))
     = [\<lparr>pegRule = ruleStatement, tbegin = 0, tend = 10\<rparr>]"
    unfolding p by (simp add: stmts_def)
  have l: "length ''create vpc'' = 10" by simp
  note w = mp [OF conjunct1 [OF Parse_whole_input] p, unfolded l]
  have 2: "\<exists>p0 ts. projr (Parse ''create vpc'')
          = ts @ [\<lparr>pegRule = ruleEndOfFile, tbegin = 10, tend = 10\<rparr>,
                  \<lparr>pegRule = ruleScript, tbegin = 0, tend = 10\<rparr>]
        \<and> p0 \<le> 10 \<and> list_all isSpaceRune (take p0 ''create vpc'')
        \<and> stmts (projr (Parse ''create vpc'')) \<noteq> []
        \<and> contiguous p0 (stmts (projr (Parse ''create vpc''))) 10"
    unfolding p sum.sel by (rule w)
  from 1 2 show ?thesis by (intro conjI)
qed

end
